theory Spec2Isabelle
  imports
    Complex_Main
    "HOL-Library.Sublist"
    "HOL-Library.Char_ord"
    "HOL-Library.List_Lexorder"
    "HOL-Library.Product_Lexorder"
    "HOL-Library.Multiset"
begin

section \<open>Python values used by Path\_Finder.py\<close>

text \<open>
  Exceptions are values.  Only the classes that the handlers of the source tell apart
  are kept: the \<open>OSError\<close> family (caught by \<open>except (OSError, PermissionError)\<close> and
  friends), \<open>subprocess.TimeoutExpired\<close>, the \<open>TimeoutError\<close> of
  \<open>concurrent.futures\<close>, \<open>ValueError\<close> and \<open>RuntimeError\<close>.  All of them are
  subclasses of \<open>Exception\<close>.  (From Python 3.11 on the \<open>TimeoutError\<close> of
  \<open>concurrent.futures\<close> is the built-in one, a subclass of \<open>OSError\<close>; in this program it
  never reaches a handler for \<open>OSError\<close>, so the two readings agree.)
\<close>

datatype py_error =
    PermissionError
  | FileNotFoundError
  | OSError
  | TimeoutExpired
  | FuturesTimeoutError
  | ValueError
  | RuntimeError

fun is_OSError :: "py_error \<Rightarrow> bool" where
  "is_OSError PermissionError = True"
| "is_OSError FileNotFoundError = True"
| "is_OSError OSError = True"
| "is_OSError TimeoutExpired = False"
| "is_OSError FuturesTimeoutError = False"
| "is_OSError ValueError = False"
| "is_OSError RuntimeError = False"

subsection \<open>Strings\<close>

text \<open>
  A \<open>str\<close> is a \<open>string\<close> (a list of bytes).  \<open>str.lower\<close> and \<open>str.isdigit\<close> are the
  ASCII ones; bytes above 127 are left alone.
\<close>

definition char_lower :: "char \<Rightarrow> char" where
  "char_lower c =
     (if CHR ''A'' \<le> c \<and> c \<le> CHR ''Z''
      then (case c of Char b0 b1 b2 b3 b4 b5 b6 b7 \<Rightarrow> Char b0 b1 b2 b3 b4 True b6 b7)
      else c)"

definition str_lower :: "string \<Rightarrow> string" where
  "str_lower s = map char_lower s"

definition isdigit :: "char \<Rightarrow> bool" where
  "isdigit c = (CHR ''0'' \<le> c \<and> c \<le> CHR ''9'')"

text \<open>\<open>str_in sub s\<close> is Python's \<open>sub in s\<close>.\<close>

fun str_in :: "string \<Rightarrow> string \<Rightarrow> bool" where
  "str_in sub [] = (sub = [])"
| "str_in sub (c # s) = (prefix sub (c # s) \<or> str_in sub s)"

text \<open>\<open>split_on sep s\<close> is \<open>s.split(sep)\<close> for a one-character separator.  The result is
  never empty, so the first case of the \<open>case\<close> is never taken.\<close>

fun split_on :: "char \<Rightarrow> string \<Rightarrow> string list" where
  "split_on sep [] = [[]]"
| "split_on sep (c # s) =
     (if c = sep then [] # split_on sep s
      else (case split_on sep s of
              [] \<Rightarrow> [[c]]
            | word # words \<Rightarrow> (c # word) # words))"

text \<open>\<open>str_join sep xs\<close> is \<open>sep.join(xs)\<close>.\<close>

fun str_join :: "string \<Rightarrow> string list \<Rightarrow> string" where
  "str_join sep [] = []"
| "str_join sep [x] = x"
| "str_join sep (x # y # ys) = x @ sep @ str_join sep (y # ys)"

definition is_space :: "char \<Rightarrow> bool" where
  "is_space c = (c = CHR '' '' \<or> c = CHR 0x09 \<or> c = CHR 0x0A \<or> c = CHR 0x0B
                 \<or> c = CHR 0x0C \<or> c = CHR 0x0D)"

text \<open>\<open>split_ws cur s\<close> is \<open>s.split()\<close>: runs of white space separate the words and no
  empty word is produced; \<open>cur\<close> is the word being read.\<close>

fun split_ws :: "string \<Rightarrow> string \<Rightarrow> string list" where
  "split_ws cur [] = (if cur = [] then [] else [cur])"
| "split_ws cur (c # s) =
     (if is_space c then (if cur = [] then split_ws [] s else cur # split_ws [] s)
      else split_ws (cur @ [c]) s)"

subsection \<open>posixpath\<close>

text \<open>
  \<open>posixpath.normpath\<close>: an empty path is \<open>.\<close>; one leading slash, or three and more,
  count as one, exactly two are kept; empty and \<open>.\<close> components are dropped; \<open>..\<close>
  removes the component before it, is dropped at the root and is kept at the start of
  a relative path.
\<close>

definition initial_slashes :: "string \<Rightarrow> nat" where
  "initial_slashes path =
     (if prefix ''/'' path
      then (if prefix ''//'' path \<and> \<not> prefix ''///'' path then 2 else 1)
      else 0)"

fun norm_comps :: "nat \<Rightarrow> string list \<Rightarrow> string list \<Rightarrow> string list" where
  "norm_comps sl new_comps [] = new_comps"
| "norm_comps sl new_comps (cmp # comps) =
     (if cmp = '''' \<or> cmp = ''.'' then norm_comps sl new_comps comps
      else if cmp \<noteq> ''..'' \<or> (sl = 0 \<and> new_comps = [])
              \<or> (new_comps \<noteq> [] \<and> last new_comps = ''..'')
           then norm_comps sl (new_comps @ [cmp]) comps
      else if new_comps \<noteq> [] then norm_comps sl (butlast new_comps) comps
      else norm_comps sl new_comps comps)"

definition posix_normpath :: "string \<Rightarrow> string" where
  "posix_normpath path =
     (if path = '''' then ''.''
      else (let sl = initial_slashes path;
                comps = norm_comps sl [] (split_on CHR ''/'' path);
                p = replicate sl CHR ''/'' @ str_join ''/'' comps
            in if p = '''' then ''.'' else p))"

text \<open>\<open>posixpath.join\<close> for two arguments and \<open>posixpath.abspath\<close>.\<close>

definition posix_join :: "string \<Rightarrow> string \<Rightarrow> string" where
  "posix_join a b =
     (if prefix ''/'' b then b
      else if a = '''' \<or> suffix ''/'' a then a @ b
      else a @ ''/'' @ b)"

definition posix_abspath :: "string \<Rightarrow> string \<Rightarrow> string" where
  "posix_abspath cwd path =
     posix_normpath (if prefix ''/'' path then path else posix_join cwd path)"

subsection \<open>pathlib\<close>

text \<open>
  A pure path is its anchor and its components.  \<open>posix_Path\<close> is the constructor of
  \<open>PurePosixPath\<close>: empty and \<open>.\<close> components vanish, \<open>..\<close> stays.
\<close>

datatype ppath = PPath (anchor: string) (parts: "string list")

definition posix_Path :: "string \<Rightarrow> ppath" where
  "posix_Path s =
     PPath (replicate (initial_slashes s) CHR ''/'')
           (filter (\<lambda>c. c \<noteq> '''' \<and> c \<noteq> ''.'') (split_on CHR ''/'' s))"

definition path_name :: "ppath \<Rightarrow> string" where
  "path_name p = (if parts p = [] then '''' else last (parts p))"

definition path_parent :: "ppath \<Rightarrow> ppath" where
  "path_parent p = PPath (anchor p) (butlast (parts p))"

text \<open>The child that \<open>iterdir\<close> makes from an entry name.\<close>

definition path_child :: "ppath \<Rightarrow> string \<Rightarrow> ppath" where
  "path_child p name = PPath (anchor p) (parts p @ [name])"

text \<open>\<open>name_suffix\<close> is \<open>PurePath.suffix\<close> on the final component: the text from the last
  dot on, when that dot is neither the first nor the last character.\<close>

fun rfind_dot :: "string \<Rightarrow> nat option" where
  "rfind_dot [] = None"
| "rfind_dot (c # s) =
     (case rfind_dot s of
        Some i \<Rightarrow> Some (Suc i)
      | None \<Rightarrow> if c = CHR ''.'' then Some 0 else None)"

definition name_suffix :: "string \<Rightarrow> string" where
  "name_suffix name =
     (case rfind_dot name of
        None \<Rightarrow> ''''
      | Some i \<Rightarrow> if 0 < i \<and> i < length name - 1 then drop i name else '''')"

section \<open>The world outside the program\<close>

text \<open>
  Everything the program asks of its platform is a field of \<open>world\<close>: the environment,
  the file system (each call returns its value or the exception it raises), the
  executable search, the subprocess, the registry, the clocks and the thread pools.
  \<open>os_type\<close> is \<open>platform.system().lower()\<close>, which \<open>__init__\<close> stores and nothing
  changes.  Where it is \<open>windows\<close> the path functions are those of \<open>ntpath\<close> and
  \<open>WindowsPath\<close>, taken as the fields \<open>nt_*\<close>; elsewhere they are the POSIX ones above.

  \<open>clock thr n\<close> is what the \<open>n\<close>-th call of \<open>time.time()\<close> made by thread \<open>thr\<close>
  returns.  \<open>completed pool\<close> lists, in completion order, the indices of the futures of
  \<open>pool\<close> that finish inside the window given to \<open>as_completed\<close>.  \<open>str_hash\<close> decides
  the iteration order of a \<open>set\<close> of strings, which Python leaves open: the elements come
  by ascending hash, and in insertion order where hashes agree.
\<close>

record world =
  os_type :: string
  environ :: "string \<Rightarrow> string option"
  getcwd :: string
  path_is_dir :: "string \<Rightarrow> py_error + bool"
  path_is_symlink :: "string \<Rightarrow> py_error + bool"
  listdir :: "string \<Rightarrow> py_error + string list"
  path_resolve :: "string \<Rightarrow> py_error + string"
  os_path_isfile :: "string \<Rightarrow> bool"
  os_path_exists :: "string \<Rightarrow> bool"
  os_access_x :: "string \<Rightarrow> bool"
  shutil_which :: "string \<Rightarrow> string option"
  expand :: "string \<Rightarrow> string"
  subprocess_run :: "string \<Rightarrow> py_error + string"
  winreg :: bool
  reg_install_path :: "string \<Rightarrow> string \<Rightarrow> py_error + string"
  nt_normpath :: "string \<Rightarrow> string"
  nt_join :: "string \<Rightarrow> string \<Rightarrow> string"
  nt_abspath :: "string \<Rightarrow> string"
  nt_Path :: "string \<Rightarrow> ppath"
  str_hash :: "string \<Rightarrow> nat"
  clock :: "string \<Rightarrow> nat \<Rightarrow> real"
  completed :: "string \<Rightarrow> nat list"

definition list_of_set :: "world \<Rightarrow> string list \<Rightarrow> string list" where
  "list_of_set w xs = sort_key (str_hash w) xs"

definition is_windows :: "world \<Rightarrow> bool" where
  "is_windows w = (os_type w = ''windows'')"

definition os_path_normpath :: "world \<Rightarrow> string \<Rightarrow> string" where
  "os_path_normpath w p = (if is_windows w then nt_normpath w p else posix_normpath p)"

definition os_path_join :: "world \<Rightarrow> string \<Rightarrow> string \<Rightarrow> string" where
  "os_path_join w a b = (if is_windows w then nt_join w a b else posix_join a b)"

definition os_path_abspath :: "world \<Rightarrow> string \<Rightarrow> string" where
  "os_path_abspath w p = (if is_windows w then nt_abspath w p else posix_abspath (getcwd w) p)"

text \<open>\<open>os.path.isdir\<close> never raises: a failing \<open>stat\<close> is \<open>False\<close>.\<close>

definition os_path_isdir :: "world \<Rightarrow> string \<Rightarrow> bool" where
  "os_path_isdir w p = (case path_is_dir w p of Inr b \<Rightarrow> b | Inl e \<Rightarrow> False)"

definition Path_of :: "world \<Rightarrow> string \<Rightarrow> ppath" where
  "Path_of w s = (if is_windows w then nt_Path w s else posix_Path s)"

definition path_sep :: "world \<Rightarrow> string" where
  "path_sep w = (if is_windows w then [CHR 0x5C] else ''/'')"

definition path_str :: "world \<Rightarrow> ppath \<Rightarrow> string" where
  "path_str w p =
     (if anchor p = [] \<and> parts p = [] then ''.''
      else anchor p @ str_join (path_sep w) (parts p))"

text \<open>\<open>p / s\<close>: an anchored right operand replaces the left one.\<close>

definition path_div :: "world \<Rightarrow> ppath \<Rightarrow> string \<Rightarrow> ppath" where
  "path_div w p s =
     (let q = Path_of w s
      in if anchor q \<noteq> [] then q else PPath (anchor p) (parts p @ parts q))"

section \<open>class TessdataFinder\<close>

text \<open>The instance: \<open>lock\<close> guards \<open>found_paths\<close> only and has no field here;
  \<open>found_paths\<close> is the set, kept in insertion order.\<close>

record finder =
  timeout :: real
  max_workers :: int
  start_time :: "real option"
  found_paths :: "string list"

definition TessdataFinder :: "real \<Rightarrow> int \<Rightarrow> finder" where
  "TessdataFinder t mw =
     \<lparr>timeout = t, max_workers = mw, start_time = None, found_paths = []\<rparr>"

subsection \<open>\_elapsed and \_is\_timeout\<close>

text \<open>
  Both run on some thread: \<open>clk\<close> is that thread's clock and \<open>n\<close> the number of
  readings it has made.  \<open>if self.start_time\<close> is false for \<open>None\<close> and for \<open>0.0\<close>, and
  then the clock is not read.
\<close>

definition elapsed :: "finder \<Rightarrow> (nat \<Rightarrow> real) \<Rightarrow> nat \<Rightarrow> real \<times> nat" where
  "elapsed self clk n =
     (case start_time self of
        None \<Rightarrow> (0, n)
      | Some s \<Rightarrow> if s = 0 then (0, n) else (clk n - s, Suc n))"

definition is_timeout :: "finder \<Rightarrow> (nat \<Rightarrow> real) \<Rightarrow> nat \<Rightarrow> bool \<times> nat" where
  "is_timeout self clk n = (let (e, n') = elapsed self clk n in (e > timeout self, n'))"

subsection \<open>\_is\_valid\_tessdata\_dir\<close>

text \<open>\<open>except (OSError, PermissionError)\<close> turns the \<open>OSError\<close> family into \<open>False\<close>;
  any other exception leaves the method.\<close>

definition catch_OSError_False :: "py_error \<Rightarrow> py_error + bool" where
  "catch_OSError_False e = (if is_OSError e then Inr False else Inl e)"

definition is_valid_tessdata_dir :: "world \<Rightarrow> string \<Rightarrow> py_error + bool" where
  "is_valid_tessdata_dir w path =
     (case path_is_dir w path of
        Inl e \<Rightarrow> catch_OSError_False e
      | Inr False \<Rightarrow> Inr False
      | Inr True \<Rightarrow>
          (case listdir w path of
             Inl e \<Rightarrow> catch_OSError_False e
           | Inr names \<Rightarrow> Inr (list_ex (\<lambda>f. name_suffix f = ''.traineddata'') names)))"

subsection \<open>\_should\_search\_directory\<close>

definition skip_dirs :: "string list" where
  "skip_dirs =
     [''windows'', ''system32'', ''syswow64'', ''$recycle.bin'', ''recovery'',
      ''proc'', ''sys'', ''dev'', ''run'', ''tmp'', ''var/tmp'', ''boot'',
      ''.git'', ''.svn'', ''__pycache__'', ''node_modules'', ''.vscode'']"

definition interesting_keywords :: "string list" where
  "interesting_keywords =
     [''tesseract'', ''ocr'', ''program'', ''share'', ''local'', ''opt'', ''tools'', ''bin'']"

definition should_search_directory :: "ppath \<Rightarrow> bool" where
  "should_search_directory path =
     (let name = str_lower (path_name path)
      in if name \<in> set skip_dirs then False
         else list_ex (\<lambda>keyword. str_in keyword name) interesting_keywords
              \<or> length name < 3)"

subsection \<open>\_prioritize\_paths\<close>

definition priority_key :: "string \<Rightarrow> int \<times> string" where
  "priority_key path =
     (let path_lower = str_lower path;
          p0 = (0::int);
          p1 = (if list_ex (\<lambda>env. str_in env path_lower) [''tessdata_prefix'', ''tesseract'']
                then p0 - 1000 else p0);
          p2 = (if list_ex (\<lambda>sys_path. str_in sys_path path_lower)
                     [''/usr/share'', ''/usr/local/share'', ''program files'']
                then p1 - 100 else p1);
          p3 = (if list_ex isdigit path then p2 - 10 else p2)
      in (p3, path_lower))"

text \<open>The loop that removes duplicates: \<open>seen\<close> is the set, \<open>unique_paths\<close> the list.\<close>

fun unique_loop ::
  "world \<Rightarrow> string list \<Rightarrow> string set \<Rightarrow> string list \<Rightarrow> string list" where
  "unique_loop w [] seen unique_paths = unique_paths"
| "unique_loop w (path # paths) seen unique_paths =
     (let normalized = os_path_normpath w path
      in if normalized \<notin> seen
         then unique_loop w paths (insert normalized seen) (unique_paths @ [normalized])
         else unique_loop w paths seen unique_paths)"

text \<open>\<open>sorted\<close> is stable, as \<open>sort_key\<close> is; tuples and strings compare
  lexicographically.\<close>

definition prioritize_paths :: "world \<Rightarrow> string list \<Rightarrow> string list" where
  "prioritize_paths w paths = sort_key priority_key (unique_loop w paths {} [])"

subsection \<open>\_search\_directory\_tree\<close>

definition max_depth :: "world \<Rightarrow> nat" where
  "max_depth w = (if os_type w = ''windows'' then 4 else 5)"

text \<open>
  The state of one crawl: the clock readings its thread has made, the list \<open>found\<close>,
  and \<open>visited\<close>, the paths on which \<open>_recursive_search\<close> got past its first line (the
  depth and budget test), in the order it reached them.  \<open>visited\<close> is not a variable
  of the source; it records what the crawl looks at.
\<close>

record crawl =
  ticks :: nat
  found :: "string list"
  visited :: "ppath list"

text \<open>\<open>except (PermissionError, OSError, FileNotFoundError): pass\<close>: the \<open>OSError\<close> family
  ends the call normally, any other exception goes on to the caller.\<close>

definition except_OSError_pass :: "py_error \<Rightarrow> crawl \<Rightarrow> py_error option \<times> crawl" where
  "except_OSError_pass e st = (if is_OSError e then (None, st) else (Some e, st))"

text \<open>
  \<open>recursive_search\<close> is the nested function; \<open>search_children\<close> is its \<open>for child in
  current_path.iterdir()\<close> loop, which stands inside the \<open>try\<close>: an exception of
  \<open>is_dir\<close>, \<open>is_symlink\<close> or of a deeper call ends the loop.  The result is the
  exception that leaves the call, if any, and the state.
\<close>

function
  recursive_search ::
    "world \<Rightarrow> finder \<Rightarrow> (nat \<Rightarrow> real) \<Rightarrow> bool \<Rightarrow> ppath \<Rightarrow> nat \<Rightarrow> crawl
       \<Rightarrow> py_error option \<times> crawl"
and
  search_children ::
    "world \<Rightarrow> finder \<Rightarrow> (nat \<Rightarrow> real) \<Rightarrow> bool \<Rightarrow> ppath \<Rightarrow> string list \<Rightarrow> nat \<Rightarrow> crawl
       \<Rightarrow> py_error option \<times> crawl"
where
  "recursive_search w self clk verbose current_path depth st =
     (if depth > max_depth w then (None, st)
      else if fst (is_timeout self clk (ticks st))
      then (None, st\<lparr>ticks := snd (is_timeout self clk (ticks st))\<rparr>)
      else
        (let st1 = st\<lparr>ticks := snd (is_timeout self clk (ticks st)),
                      visited := visited st @ [current_path]\<rparr>;
             valid = (if path_name current_path = ''tessdata''
                      then is_valid_tessdata_dir w (path_str w current_path)
                      else Inr False)
         in case valid of
              Inl e \<Rightarrow> except_OSError_pass e st1
            | Inr True \<Rightarrow>
                (case path_resolve w (path_str w current_path) of
                   Inl e \<Rightarrow> except_OSError_pass e st1
                 | Inr abs_path \<Rightarrow> (None, st1\<lparr>found := found st1 @ [abs_path]\<rparr>))
            | Inr False \<Rightarrow>
                if should_search_directory current_path
                then (case listdir w (path_str w current_path) of
                        Inl e \<Rightarrow> except_OSError_pass e st1
                      | Inr names \<Rightarrow>
                          (case search_children w self clk verbose current_path names depth st1 of
                             (Some e, st2) \<Rightarrow> except_OSError_pass e st2
                           | (None, st2) \<Rightarrow> (None, st2)))
                else (None, st1)))"
| "search_children w self clk verbose current_path [] depth st = (None, st)"
| "search_children w self clk verbose current_path (name # names) depth st =
     (let child = path_child current_path name
      in case path_is_dir w (path_str w child) of
           Inl e \<Rightarrow> (Some e, st)
         | Inr False \<Rightarrow> search_children w self clk verbose current_path names depth st
         | Inr True \<Rightarrow>
             (case path_is_symlink w (path_str w child) of
                Inl e \<Rightarrow> (Some e, st)
              | Inr True \<Rightarrow> search_children w self clk verbose current_path names depth st
              | Inr False \<Rightarrow>
                  (case recursive_search w self clk verbose child (depth + 1) st of
                     (Some e, st') \<Rightarrow> (Some e, st')
                   | (None, st') \<Rightarrow>
                       search_children w self clk verbose current_path names depth st')))"
  by pat_completeness auto
termination
  by (relation "inv_image (less_than <*lex*> less_than)
        (\<lambda>x. case x of
           Inl (w, self, clk, verbose, p, d, st) \<Rightarrow> (3 * (Suc (max_depth w) - d), 0)
         | Inr (w, self, clk, verbose, p, names, d, st) \<Rightarrow>
             (if d \<le> max_depth w then 3 * (Suc (max_depth w) - d) - 1 else 1, length names))")
     (auto simp: max_depth_def)

declare recursive_search.simps [simp del]

text \<open>
  The method itself: the search starts at \<open>Path(root_path)\<close> with depth 0, and
  \<open>except Exception: pass\<close> drops whatever leaves it.  The value returned is \<open>found\<close>; the
  whole state is kept for the statements about what was visited.
\<close>

definition crawl0 :: crawl where
  "crawl0 = \<lparr>ticks = 0, found = [], visited = []\<rparr>"

definition search_directory_tree_state ::
  "world \<Rightarrow> finder \<Rightarrow> (nat \<Rightarrow> real) \<Rightarrow> string \<Rightarrow> bool \<Rightarrow> crawl" where
  "search_directory_tree_state w self clk root_path verbose =
     snd (recursive_search w self clk verbose (Path_of w root_path) 0 crawl0)"

definition search_directory_tree ::
  "world \<Rightarrow> finder \<Rightarrow> (nat \<Rightarrow> real) \<Rightarrow> string \<Rightarrow> bool \<Rightarrow> string list" where
  "search_directory_tree w self clk root_path verbose =
     found (search_directory_tree_state w self clk root_path verbose)"

subsection \<open>\_check\_environment\_vars\<close>

text \<open>The inner loop over the two candidates of one variable: the first valid one is
  taken (\<open>break\<close>).  An exception of the validity test leaves the method.\<close>

fun env_candidates :: "world \<Rightarrow> string list \<Rightarrow> py_error + string option" where
  "env_candidates w [] = Inr None"
| "env_candidates w (candidate # cs) =
     (case is_valid_tessdata_dir w candidate of
        Inl e \<Rightarrow> Inl e
      | Inr True \<Rightarrow> Inr (Some (os_path_abspath w candidate))
      | Inr False \<Rightarrow> env_candidates w cs)"

fun env_vars_loop :: "world \<Rightarrow> string list \<Rightarrow> string list \<Rightarrow> py_error + string list" where
  "env_vars_loop w [] paths = Inr paths"
| "env_vars_loop w (var # vars) paths =
     (case environ w var of
        None \<Rightarrow> env_vars_loop w vars paths
      | Some path \<Rightarrow>
          if path = [] then env_vars_loop w vars paths
          else (case env_candidates w [path, os_path_join w path ''tessdata''] of
                  Inl e \<Rightarrow> Inl e
                | Inr None \<Rightarrow> env_vars_loop w vars paths
                | Inr (Some p) \<Rightarrow> env_vars_loop w vars (paths @ [p])))"

definition check_environment_vars :: "world \<Rightarrow> bool \<Rightarrow> py_error + string list" where
  "check_environment_vars w verbose =
     env_vars_loop w [''TESSDATA_PREFIX'', ''TESSERACT_DATA_PATH'', ''TESSERACT_PREFIX''] []"

subsection \<open>The tables\<close>

definition get_relative_tessdata_paths :: "world \<Rightarrow> string list" where
  "get_relative_tessdata_paths w =
     (if os_type w = ''windows''
      then [''tessdata'', ''../tessdata'', ''../../tessdata'', ''../share/tessdata'',
            ''../share/tesseract-ocr/tessdata'']
      else [''../share/tesseract-ocr/tessdata'', ''../share/tesseract/tessdata'',
            ''../share/tessdata'', ''../../share/tesseract-ocr/tessdata'',
            ''../../share/tesseract/tessdata'', ''../tessdata'', ''tessdata''])"

definition get_common_tessdata_paths :: "world \<Rightarrow> string list" where
  "get_common_tessdata_paths w =
     (if os_type w = ''windows''
      then [''C:/Program Files/Tesseract-OCR/tessdata'',
            ''C:/Program Files (x86)/Tesseract-OCR/tessdata'',
            ''C:/Tesseract-OCR/tessdata'',
            ''C:/tools/tesseract/tessdata'',
            ''${LOCALAPPDATA}/Tesseract-OCR/tessdata'',
            ''${PROGRAMFILES}/Tesseract-OCR/tessdata'',
            ''${PROGRAMFILES(X86)}/Tesseract-OCR/tessdata'',
            ''~/AppData/Local/Tesseract-OCR/tessdata'',
            ''~/tessdata'']
      else if os_type w = ''darwin''
      then [''/usr/local/share/tesseract-ocr/tessdata'',
            ''/usr/local/share/tessdata'',
            ''/opt/homebrew/share/tesseract-ocr/tessdata'',
            ''/usr/share/tesseract-ocr/tessdata'',
            ''~/.local/share/tesseract/tessdata'',
            ''~/tessdata'']
      else [''/usr/share/tesseract-ocr/tessdata'',
            ''/usr/share/tessdata'',
            ''/usr/local/share/tesseract-ocr/tessdata'',
            ''/usr/local/share/tessdata'',
            ''/opt/tesseract/share/tessdata'',
            ''~/.local/share/tesseract/tessdata'',
            ''~/.tesseract/tessdata'',
            ''~/tessdata''])"

definition get_common_binary_paths :: "world \<Rightarrow> string list" where
  "get_common_binary_paths w =
     (if os_type w = ''windows''
      then [''C:/Program Files/Tesseract-OCR/tesseract.exe'',
            ''C:/Program Files (x86)/Tesseract-OCR/tesseract.exe'',
            ''C:/tools/tesseract/tesseract.exe'']
      else [''/usr/bin/tesseract'', ''/usr/local/bin/tesseract'',
            ''/opt/tesseract/bin/tesseract''])"

text \<open>The drive letters \<open>C\<close> to \<open>Z\<close>, each followed by a colon and a backslash.\<close>

definition drive_candidates :: "string list" where
  "drive_candidates = map (\<lambda>letter. [letter, CHR '':'', CHR 0x5C]) ''CDEFGHIJKLMNOPQRSTUVWXYZ''"

definition get_search_roots :: "world \<Rightarrow> string list" where
  "get_search_roots w =
     (if os_type w = ''windows''
      then (let drives = filter (os_path_exists w) drive_candidates;
                roots = concat (map (\<lambda>drive. [os_path_join w drive ''Program Files'',
                                                 os_path_join w drive ''Program Files (x86)''])
                                    (take 2 drives))
            in filter (os_path_exists w) roots)
      else [''/usr'', ''/usr/local'', ''/opt''])"

subsection \<open>\_find\_tesseract\_binaries\<close>

definition binary_names :: "string list" where
  "binary_names = [''tesseract'', ''tesseract.exe'']"

definition os_pathsep :: "world \<Rightarrow> char" where
  "os_pathsep w = (if is_windows w then CHR '';'' else CHR '':'')"

definition which_step :: "world \<Rightarrow> string list \<Rightarrow> string \<Rightarrow> string list" where
  "which_step w binaries name =
     (case shutil_which w name of
        None \<Rightarrow> binaries
      | Some binary \<Rightarrow>
          if binary \<noteq> [] \<and> binary \<notin> set binaries then binaries @ [binary] else binaries)"

definition executable_step :: "world \<Rightarrow> string list \<Rightarrow> string \<Rightarrow> string list" where
  "executable_step w binaries binary_path =
     (if os_path_isfile w binary_path \<and> os_access_x w binary_path
         \<and> binary_path \<notin> set binaries
      then binaries @ [binary_path] else binaries)"

definition path_dir_step :: "world \<Rightarrow> string list \<Rightarrow> string \<Rightarrow> string list" where
  "path_dir_step w binaries path_dir =
     (if path_dir = [] then binaries
      else foldl (\<lambda>bs name. executable_step w bs (os_path_join w path_dir name))
                 binaries binary_names)"

definition find_tesseract_binaries :: "world \<Rightarrow> string list" where
  "find_tesseract_binaries w =
     (let binaries = foldl (which_step w) [] binary_names;
          path_env = (case environ w ''PATH'' of None \<Rightarrow> [] | Some v \<Rightarrow> v);
          binaries = foldl (path_dir_step w) binaries (split_on (os_pathsep w) path_env);
          binaries = foldl (\<lambda>bs path. executable_step w bs (expand w path))
                           binaries (get_common_binary_paths w)
      in binaries)"

subsection \<open>\_check\_tesseract\_binary\_info\<close>

text \<open>
  Method 1 of the loop body.  \<open>paths\<close> is appended to as the output is read, so what
  was found before an exception stays.  \<open>except (subprocess.TimeoutExpired,
  FileNotFoundError, OSError): pass\<close> ends the method quietly; another exception
  leaves \<open>_check_tesseract_binary_info\<close>.
\<close>

fun info_words :: "world \<Rightarrow> string list \<Rightarrow> string list \<Rightarrow> py_error option \<times> string list" where
  "info_words w [] paths = (None, paths)"
| "info_words w (word # ws) paths =
     (if str_in ''tessdata'' word \<and> os_path_isdir w word
      then (case is_valid_tessdata_dir w word of
              Inl e \<Rightarrow> (Some e, paths)
            | Inr True \<Rightarrow> info_words w ws (paths @ [os_path_abspath w word])
            | Inr False \<Rightarrow> info_words w ws paths)
      else info_words w ws paths)"

fun info_lines :: "world \<Rightarrow> string list \<Rightarrow> string list \<Rightarrow> py_error option \<times> string list" where
  "info_lines w [] paths = (None, paths)"
| "info_lines w (line # ls) paths =
     (if str_in ''tessdata'' (str_lower line)
      then (case info_words w (split_ws [] line) paths of
              (Some e, paths') \<Rightarrow> (Some e, paths')
            | (None, paths') \<Rightarrow> info_lines w ls paths')
      else info_lines w ls paths)"

definition ask_tesseract :: "world \<Rightarrow> string \<Rightarrow> string list \<Rightarrow> py_error option \<times> string list" where
  "ask_tesseract w binary paths =
     (case (case subprocess_run w binary of
              Inl e \<Rightarrow> (Some e, paths)
            | Inr stdout \<Rightarrow> info_lines w (split_on CHR 0x0A stdout) paths) of
        (Some e, paths') \<Rightarrow>
          if e = TimeoutExpired \<or> is_OSError e then (None, paths') else (Some e, paths')
      | (None, paths') \<Rightarrow> (None, paths'))"

text \<open>Method 2: \<open>except Exception: continue\<close> ends it at the first exception, with what
  it appended so far.\<close>

fun relative_loop :: "world \<Rightarrow> ppath \<Rightarrow> string list \<Rightarrow> string list \<Rightarrow> string list" where
  "relative_loop w bin_dir [] paths = paths"
| "relative_loop w bin_dir (rel_path # rels) paths =
     (let candidate = path_div w bin_dir rel_path
      in case path_is_dir w (path_str w candidate) of
           Inl e \<Rightarrow> paths
         | Inr False \<Rightarrow> relative_loop w bin_dir rels paths
         | Inr True \<Rightarrow>
             (case is_valid_tessdata_dir w (path_str w candidate) of
                Inl e \<Rightarrow> paths
              | Inr False \<Rightarrow> relative_loop w bin_dir rels paths
              | Inr True \<Rightarrow>
                  (case path_resolve w (path_str w candidate) of
                     Inl e \<Rightarrow> paths
                   | Inr abs_path \<Rightarrow>
                       relative_loop w bin_dir rels
                         (if abs_path \<notin> set paths then paths @ [abs_path] else paths))))"

definition relative_to_binary :: "world \<Rightarrow> string \<Rightarrow> string list \<Rightarrow> string list" where
  "relative_to_binary w binary paths =
     (case path_resolve w (path_str w (path_parent (Path_of w binary))) of
        Inl e \<Rightarrow> paths
      | Inr bin_dir \<Rightarrow>
          relative_loop w (Path_of w bin_dir) (get_relative_tessdata_paths w) paths)"

text \<open>The loop over the binaries; the second component is the number of clock
  readings of the calling thread.\<close>

fun binaries_loop ::
  "world \<Rightarrow> finder \<Rightarrow> (nat \<Rightarrow> real) \<Rightarrow> string list \<Rightarrow> string list \<Rightarrow> nat
     \<Rightarrow> (py_error + string list) \<times> nat" where
  "binaries_loop w self clk [] paths n = (Inr paths, n)"
| "binaries_loop w self clk (binary # bs) paths n =
     (if fst (is_timeout self clk n) then (Inr paths, snd (is_timeout self clk n))
      else (case ask_tesseract w binary paths of
              (Some e, paths') \<Rightarrow> (Inl e, snd (is_timeout self clk n))
            | (None, paths') \<Rightarrow>
                binaries_loop w self clk bs (relative_to_binary w binary paths')
                  (snd (is_timeout self clk n))))"

definition check_tesseract_binary_info ::
  "world \<Rightarrow> finder \<Rightarrow> (nat \<Rightarrow> real) \<Rightarrow> nat \<Rightarrow> bool \<Rightarrow> (py_error + string list) \<times> nat" where
  "check_tesseract_binary_info w self clk n verbose =
     binaries_loop w self clk (find_tesseract_binaries w) [] n"

subsection \<open>\_check\_common\_locations\<close>

fun common_loop ::
  "world \<Rightarrow> finder \<Rightarrow> (nat \<Rightarrow> real) \<Rightarrow> string list \<Rightarrow> string list \<Rightarrow> nat
     \<Rightarrow> string list \<times> nat" where
  "common_loop w self clk [] paths n = (paths, n)"
| "common_loop w self clk (path_template # ts) paths n =
     (if fst (is_timeout self clk n) then (paths, snd (is_timeout self clk n))
      else (let expanded_path = expand w path_template;
                paths' = (if os_path_isdir w expanded_path
                          then (case is_valid_tessdata_dir w expanded_path of
                                  Inl e \<Rightarrow> paths
                                | Inr False \<Rightarrow> paths
                                | Inr True \<Rightarrow> paths @ [os_path_abspath w expanded_path])
                          else paths)
            in common_loop w self clk ts paths' (snd (is_timeout self clk n))))"

definition check_common_locations ::
  "world \<Rightarrow> finder \<Rightarrow> (nat \<Rightarrow> real) \<Rightarrow> nat \<Rightarrow> bool \<Rightarrow> (py_error + string list) \<times> nat" where
  "check_common_locations w self clk n verbose =
     (let (paths, n') = common_loop w self clk (get_common_tessdata_paths w) [] n
      in (Inr paths, n'))"

subsection \<open>\_check\_registry\_windows and \_dummy\_method\<close>

definition registry_locations :: "(string \<times> string) list" where
  "registry_locations =
     [(''HKEY_LOCAL_MACHINE'', ''SOFTWARE'' @ [CHR 0x5C] @ ''Tesseract-OCR''),
      (''HKEY_LOCAL_MACHINE'',
       ''SOFTWARE'' @ [CHR 0x5C] @ ''WOW6432Node'' @ [CHR 0x5C] @ ''Tesseract-OCR''),
      (''HKEY_CURRENT_USER'', ''SOFTWARE'' @ [CHR 0x5C] @ ''Tesseract-OCR'')]"

text \<open>\<open>except (FileNotFoundError, OSError, PermissionError): continue\<close>.\<close>

fun registry_loop ::
  "world \<Rightarrow> (string \<times> string) list \<Rightarrow> string list \<Rightarrow> py_error + string list" where
  "registry_loop w [] paths = Inr paths"
| "registry_loop w ((hkey, subkey) # ls) paths =
     (case reg_install_path w hkey subkey of
        Inl e \<Rightarrow> if is_OSError e then registry_loop w ls paths else Inl e
      | Inr install_path \<Rightarrow>
          (let tessdata_path = os_path_join w install_path ''tessdata''
           in case is_valid_tessdata_dir w tessdata_path of
                Inl e \<Rightarrow> if is_OSError e then registry_loop w ls paths else Inl e
              | Inr True \<Rightarrow> registry_loop w ls (paths @ [os_path_abspath w tessdata_path])
              | Inr False \<Rightarrow> registry_loop w ls paths))"

definition check_registry_windows :: "world \<Rightarrow> bool \<Rightarrow> py_error + string list" where
  "check_registry_windows w verbose =
     (if \<not> winreg w \<or> os_type w \<noteq> ''windows'' then Inr []
      else registry_loop w registry_locations [])"

definition dummy_method :: "bool \<Rightarrow> py_error + string list" where
  "dummy_method verbose = Inr []"

subsection \<open>concurrent.futures\<close>

text \<open>
  \<open>as_completed(fs, timeout)\<close> yields the futures that finish inside the window, in
  the order they finish; when the window closes with a future still pending, the
  \<open>next\<close> that finds nothing to yield raises \<open>TimeoutError\<close>.  \<open>order\<close> is the field
  \<open>completed\<close> of the world; indices that name no future, or name one twice, are
  ignored.  The result is the outcomes yielded and whether a future stays pending.
  A future's outcome is the value its task returns or the exception it raises;
  \<open>future.result\<close> hands on either.
\<close>

definition as_completed :: "nat list \<Rightarrow> 'a list \<Rightarrow> 'a list \<times> bool" where
  "as_completed order fs =
     (let finished = remdups (filter (\<lambda>i. i < length fs) order)
      in (map (\<lambda>i. fs ! i) finished, length finished < length fs))"

subsection \<open>\_search\_filesystem\_smart\<close>

text \<open>The \<open>for future in as_completed(...)\<close> loop: the budget test may \<open>break\<close>; a
  future's exception is skipped (\<open>except Exception: continue\<close>); the \<open>TimeoutError\<close> of
  the iterator is raised by the \<open>for\<close> statement itself, outside the \<open>try\<close>.\<close>

fun harvest_crawls ::
  "finder \<Rightarrow> (nat \<Rightarrow> real) \<Rightarrow> (py_error + string list) list \<Rightarrow> bool \<Rightarrow> string list \<Rightarrow> nat
     \<Rightarrow> (py_error + string list) \<times> nat" where
  "harvest_crawls self clk [] pending paths n =
     (if pending then (Inl FuturesTimeoutError, n) else (Inr paths, n))"
| "harvest_crawls self clk (r # rs) pending paths n =
     (if fst (is_timeout self clk n) then (Inr paths, snd (is_timeout self clk n))
      else (case r of
              Inl e \<Rightarrow> harvest_crawls self clk rs pending paths (snd (is_timeout self clk n))
            | Inr found_list \<Rightarrow>
                harvest_crawls self clk rs pending (paths @ found_list)
                  (snd (is_timeout self clk n))))"

text \<open>
  The method runs on a thread with clock \<open>clk\<close> that has made \<open>n\<close> readings.  Each root
  is crawled by a task of the inner pool, on a thread of its own whose clock is
  \<open>clock w (''crawl '' @ root)\<close>.  \<open>ThreadPoolExecutor\<close> raises \<open>ValueError\<close> when
  \<open>max_workers\<close> is not positive.  Leaving the \<open>with\<close> block waits for every task, so
  all crawls run to their end whatever the loop does.  The result is the value or
  exception, the clock readings made, and the paths the crawls visited.
\<close>

definition search_filesystem_smart ::
  "world \<Rightarrow> finder \<Rightarrow> (nat \<Rightarrow> real) \<Rightarrow> nat \<Rightarrow> bool
     \<Rightarrow> (py_error + string list) \<times> nat \<times> ppath list" where
  "search_filesystem_smart w self clk n verbose =
     (if fst (is_timeout self clk n) then (Inr [], snd (is_timeout self clk n), [])
      else
        (let n1 = snd (is_timeout self clk n);
             search_roots = get_search_roots w
         in if min (int (length search_roots)) (max_workers self) \<le> 0
            then (Inl ValueError, n1, [])
            else
              (let crawls = map (\<lambda>root. search_directory_tree_state w self
                                           (clock w (''crawl '' @ root)) root verbose)
                                search_roots;
                   n2 = snd (elapsed self clk n1);
                   (yielded, pending) =
                     as_completed (completed w ''crawl'') (map (\<lambda>c. Inr (found c)) crawls);
                   (r, n3) = harvest_crawls self clk yielded pending [] n2
               in (r, n3, concat (map visited crawls)))))"

subsection \<open>find\_all\_tessdata\_paths\<close>

datatype search_method =
    Check_environment_vars
  | Check_tesseract_binary_info
  | Check_common_locations
  | Check_registry_windows
  | Dummy_method
  | Search_filesystem_smart

fun method_name :: "search_method \<Rightarrow> string" where
  "method_name Check_environment_vars = ''_check_environment_vars''"
| "method_name Check_tesseract_binary_info = ''_check_tesseract_binary_info''"
| "method_name Check_common_locations = ''_check_common_locations''"
| "method_name Check_registry_windows = ''_check_registry_windows''"
| "method_name Dummy_method = ''_dummy_method''"
| "method_name Search_filesystem_smart = ''_search_filesystem_smart''"

definition search_methods :: "world \<Rightarrow> search_method list" where
  "search_methods w =
     [Check_environment_vars, Check_tesseract_binary_info, Check_common_locations,
      if os_type w = ''windows'' then Check_registry_windows else Dummy_method,
      Search_filesystem_smart]"

text \<open>\<open>method(verbose)\<close> on a thread with clock \<open>clk\<close> and \<open>n\<close> readings made.\<close>

fun call_method ::
  "world \<Rightarrow> finder \<Rightarrow> (nat \<Rightarrow> real) \<Rightarrow> nat \<Rightarrow> bool \<Rightarrow> search_method
     \<Rightarrow> (py_error + string list) \<times> nat \<times> ppath list" where
  "call_method w self clk n verbose Check_environment_vars =
     (check_environment_vars w verbose, n, [])"
| "call_method w self clk n verbose Check_tesseract_binary_info =
     (case check_tesseract_binary_info w self clk n verbose of (r, n') \<Rightarrow> (r, n', []))"
| "call_method w self clk n verbose Check_common_locations =
     (case check_common_locations w self clk n verbose of (r, n') \<Rightarrow> (r, n', []))"
| "call_method w self clk n verbose Check_registry_windows =
     (check_registry_windows w verbose, n, [])"
| "call_method w self clk n verbose Dummy_method = (dummy_method verbose, n, [])"
| "call_method w self clk n verbose Search_filesystem_smart =
     search_filesystem_smart w self clk n verbose"

text \<open>\<open>self.found_paths.update(paths)\<close>.\<close>

definition set_update :: "string list \<Rightarrow> string list \<Rightarrow> string list" where
  "set_update s paths = foldl (\<lambda>acc p. if p \<in> set acc then acc else acc @ [p]) s paths"

text \<open>
  The state of one call of \<open>find_all_tessdata_paths\<close>: the instance, the readings the
  calling thread has made of its clock \<open>clock w ''main''\<close>, and two lists that are not
  variables of the source: the search methods that were called, and the paths the
  crawls visited.
\<close>

record search =
  inst :: finder
  readings :: nat
  calls :: "search_method list"
  crawled :: "ppath list"

definition add_found :: "string list \<Rightarrow> search \<Rightarrow> search" where
  "add_found paths s =
     s\<lparr>inst := (inst s)\<lparr>found_paths := set_update (found_paths (inst s)) paths\<rparr>\<rparr>"

text \<open>The sequential loop over \<open>search_methods[:3]\<close>; \<open>except Exception\<close> catches every
  exception of the model.\<close>

fun tier1 :: "world \<Rightarrow> bool \<Rightarrow> search_method list \<Rightarrow> search \<Rightarrow> search" where
  "tier1 w verbose [] s = s"
| "tier1 w verbose (m # ms) s =
     (if fst (is_timeout (inst s) (clock w ''main'') (readings s))
      then s\<lparr>readings := snd (is_timeout (inst s) (clock w ''main'') (readings s))\<rparr>
      else
        (case call_method w (inst s) (clock w ''main'')
                (snd (is_timeout (inst s) (clock w ''main'') (readings s))) verbose m of
           (r, n, vis) \<Rightarrow>
             (let s1 = s\<lparr>readings := n, calls := calls s @ [m], crawled := crawled s @ vis\<rparr>
              in case r of
                   Inl e \<Rightarrow> tier1 w verbose ms s1
                 | Inr paths \<Rightarrow> tier1 w verbose ms (add_found paths s1))))"

text \<open>The loop over the futures of the outer pool.\<close>

fun harvest ::
  "world \<Rightarrow> (py_error + string list) list \<Rightarrow> bool \<Rightarrow> search \<Rightarrow> py_error option \<times> search" where
  "harvest w [] pending s = (if pending then (Some FuturesTimeoutError, s) else (None, s))"
| "harvest w (r # rs) pending s =
     (if fst (is_timeout (inst s) (clock w ''main'') (readings s))
      then (None, s\<lparr>readings := snd (is_timeout (inst s) (clock w ''main'') (readings s))\<rparr>)
      else
        (let s1 = s\<lparr>readings := snd (is_timeout (inst s) (clock w ''main'') (readings s))\<rparr>
         in case r of
              Inl e \<Rightarrow> harvest w rs pending s1
            | Inr paths \<Rightarrow> harvest w rs pending (add_found paths s1)))"

text \<open>
  The concurrent part: every method of \<open>search_methods[3:]\<close> is submitted and runs on
  a worker thread whose clock is \<open>clock w\<close> of the method's name.  Nothing here is
  inside a \<open>try\<close> except \<open>future.result\<close>, so the \<open>ValueError\<close> of the pool and the
  \<open>TimeoutError\<close> of the iterator leave \<open>find_all_tessdata_paths\<close>.
\<close>

definition tier2 ::
  "world \<Rightarrow> bool \<Rightarrow> search_method list \<Rightarrow> search \<Rightarrow> py_error option \<times> search" where
  "tier2 w verbose ms s =
     (if max_workers (inst s) \<le> 0 then (Some ValueError, s)
      else
        (let tasks = map (\<lambda>m. call_method w (inst s) (clock w (method_name m)) 0 verbose m) ms;
             s1 = s\<lparr>readings := snd (elapsed (inst s) (clock w ''main'') (readings s)),
                    calls := calls s @ ms,
                    crawled := crawled s @ concat (map (\<lambda>t. snd (snd t)) tasks)\<rparr>;
             (yielded, pending) = as_completed (completed w ''tier2'') (map fst tasks)
         in harvest w yielded pending s1))"

definition search0 :: "world \<Rightarrow> finder \<Rightarrow> search" where
  "search0 w self =
     \<lparr>inst = self\<lparr>start_time := Some (clock w ''main'' 0), found_paths := []\<rparr>,
      readings = 1, calls = [], crawled = []\<rparr>"

definition find_all_tessdata_paths ::
  "world \<Rightarrow> finder \<Rightarrow> bool \<Rightarrow> (py_error + string list) \<times> search" where
  "find_all_tessdata_paths w self verbose =
     (let s1 = tier1 w verbose (take 3 (search_methods w)) (search0 w self);
          t = fst (is_timeout (inst s1) (clock w ''main'') (readings s1));
          s2 = s1\<lparr>readings := snd (is_timeout (inst s1) (clock w ''main'') (readings s1))\<rparr>
      in case (if \<not> t \<and> length (search_methods w) > 3
               then tier2 w verbose (drop 3 (search_methods w)) s2
               else (None, s2)) of
           (Some e, s3) \<Rightarrow> (Inl e, s3)
         | (None, s3) \<Rightarrow>
             (Inr (prioritize_paths w (list_of_set w (found_paths (inst s3)))),
              if verbose
              then s3\<lparr>readings := snd (elapsed (inst s3) (clock w ''main'') (readings s3))\<rparr>
              else s3))"

subsection \<open>find\_primary\_tessdata\_path\<close>

definition find_primary_tessdata_path ::
  "world \<Rightarrow> finder \<Rightarrow> bool \<Rightarrow> (py_error + string option) \<times> search" where
  "find_primary_tessdata_path w self verbose =
     (case find_all_tessdata_paths w self verbose of
        (Inl e, s) \<Rightarrow> (Inl e, s)
      | (Inr paths, s) \<Rightarrow> (Inr (if paths \<noteq> [] then Some (paths ! 0) else None), s))"

subsection \<open>The convenience functions\<close>

definition get_tessdata_paths :: "world \<Rightarrow> bool \<Rightarrow> real \<Rightarrow> py_error + string list" where
  "get_tessdata_paths w verbose t =
     fst (find_all_tessdata_paths w (TessdataFinder t 4) verbose)"

definition get_primary_tessdata_path :: "world \<Rightarrow> bool \<Rightarrow> real \<Rightarrow> py_error + string option" where
  "get_primary_tessdata_path w verbose t =
     fst (find_primary_tessdata_path w (TessdataFinder t 4) verbose)"

section \<open>Notions used in the statements\<close>

text \<open>
  \<open>reach w p d q\<close>: the path \<open>q\<close> lies below \<open>p\<close> (or is \<open>p\<close>), at most \<open>max_depth w - d\<close>
  components deeper, and every path from \<open>p\<close> down to the parent of \<open>q\<close> is accepted by
  \<open>_should_search_directory\<close>.
\<close>

definition reach :: "world \<Rightarrow> ppath \<Rightarrow> nat \<Rightarrow> ppath \<Rightarrow> bool" where
  "reach w p d q =
     (\<exists>ns. q = PPath (anchor p) (parts p @ ns) \<and> d + length ns \<le> max_depth w
        \<and> (\<forall>k<length ns. should_search_directory (PPath (anchor p) (parts p @ take k ns))))"

text \<open>\<open>recorded w q f\<close>: \<open>f\<close> is what the crawl appends to \<open>found\<close> when it stands on
  \<open>q\<close>.\<close>

definition recorded :: "world \<Rightarrow> ppath \<Rightarrow> string \<Rightarrow> bool" where
  "recorded w q f =
     (path_name q = ''tessdata'' \<and> is_valid_tessdata_dir w (path_str w q) = Inr True
        \<and> path_resolve w (path_str w q) = Inr f)"

text \<open>What a part of a crawl started on \<open>p\<close> at depth \<open>d\<close> does to the state.\<close>

definition crawl_inv :: "world \<Rightarrow> ppath \<Rightarrow> nat \<Rightarrow> crawl \<Rightarrow> crawl \<Rightarrow> bool" where
  "crawl_inv w p d st st' =
     (\<exists>newv newf. visited st' = visited st @ newv \<and> found st' = found st @ newf
        \<and> (\<forall>q\<in>set newv. reach w p d q)
        \<and> (\<forall>f\<in>set newf. \<exists>q\<in>set newv. recorded w q f))"

text \<open>\<open>before xs a b\<close>: an occurrence of \<open>a\<close> in \<open>xs\<close> is followed by one of \<open>b\<close>.\<close>

fun before :: "'a list \<Rightarrow> 'a \<Rightarrow> 'a \<Rightarrow> bool" where
  "before [] a b = False"
| "before (x # xs) a b = ((x = a \<and> b \<in> set xs) \<or> before xs a b)"

text \<open>The three conditions of \<open>priority_key\<close>, on a path as it is given.\<close>

definition has_engine_token :: "string \<Rightarrow> bool" where
  "has_engine_token path =
     list_ex (\<lambda>env. str_in env (str_lower path)) [''tessdata_prefix'', ''tesseract'']"

definition in_system_location :: "string \<Rightarrow> bool" where
  "in_system_location path =
     list_ex (\<lambda>sys_path. str_in sys_path (str_lower path))
        [''/usr/share'', ''/usr/local/share'', ''program files'']"

definition has_digit :: "string \<Rightarrow> bool" where
  "has_digit path = list_ex isdigit path"

text \<open>The component lists that \<open>posixpath.normpath\<close> produces: no empty component, no
  \<open>.\<close>, no slash inside a component, and \<open>..\<close> only at the start of a relative path.\<close>

definition normal_comps :: "nat \<Rightarrow> string list \<Rightarrow> bool" where
  "normal_comps sl cs =
     ((\<forall>c\<in>set cs. c \<noteq> [] \<and> c \<noteq> ''.'' \<and> CHR ''/'' \<notin> set c)
      \<and> ''..'' \<notin> set (if sl = 0 then dropWhile (\<lambda>c. c = ''..'') cs else cs))"

text \<open>\<open>normal_form w p\<close>: \<open>os.path.normpath\<close> leaves \<open>p\<close> as it is.\<close>

definition normal_form :: "world \<Rightarrow> string \<Rightarrow> bool" where
  "normal_form w p = (os_path_normpath w p = p)"

text \<open>
  \<open>emits_normal w\<close>: what \<open>os.path.abspath\<close> and \<open>Path.resolve\<close> return is in normal form.
  For \<open>posixpath.abspath\<close> this is proved below (\<open>abspath_normal\<close>); \<open>ntpath\<close> and
  \<open>resolve\<close> are fields of the world, of which it is the library's promise.
\<close>

definition emits_normal :: "world \<Rightarrow> bool" where
  "emits_normal w =
     ((\<forall>p. normal_form w (os_path_abspath w p))
      \<and> (\<forall>p q. path_resolve w p = Inr q \<longrightarrow> normal_form w q))"

section \<open>Example worlds\<close>

text \<open>A Linux machine with nothing on it: no variable, no file, no tesseract.  The
  clocks are too coarse to advance during a search: every reading is 100.  Every future
  finishes in time.\<close>

definition bare_linux :: world where
  "bare_linux =
     \<lparr>os_type = ''linux'',
      environ = (\<lambda>v. None),
      getcwd = ''/'',
      path_is_dir = (\<lambda>p. Inr False),
      path_is_symlink = (\<lambda>p. Inr False),
      listdir = (\<lambda>p. Inl FileNotFoundError),
      path_resolve = (\<lambda>p. Inr p),
      os_path_isfile = (\<lambda>p. False),
      os_path_exists = (\<lambda>p. False),
      os_access_x = (\<lambda>p. False),
      shutil_which = (\<lambda>name. None),
      expand = (\<lambda>p. p),
      subprocess_run = (\<lambda>b. Inl FileNotFoundError),
      winreg = False,
      reg_install_path = (\<lambda>hkey subkey. Inl FileNotFoundError),
      nt_normpath = (\<lambda>p. p),
      nt_join = (\<lambda>a b. a @ b),
      nt_abspath = (\<lambda>p. p),
      nt_Path = posix_Path,
      str_hash = (\<lambda>s. 0),
      clock = (\<lambda>thr n. 100),
      completed = (\<lambda>pool. [0, 1, 2])\<rparr>"

text \<open>Scenario 1 of the specification, with one more installation in a standard
  place: \<open>TESSDATA_PREFIX=/data/ocr\<close>, and \<open>eng.traineddata\<close> in \<open>/data/ocr/tessdata\<close> and in
  \<open>/usr/share/tesseract-ocr/tessdata\<close>.  The schedule of the pools and the clocks are
  parameters.\<close>

definition scenario_dirs :: "string list" where
  "scenario_dirs =
     [''/data'', ''/data/ocr'', ''/data/ocr/tessdata'', ''/usr'', ''/usr/share'',
      ''/usr/share/tesseract-ocr'', ''/usr/share/tesseract-ocr/tessdata'',
      ''/usr/local'', ''/opt'']"

definition scenario_listdir :: "string \<Rightarrow> py_error + string list" where
  "scenario_listdir p =
     (if p = ''/data/ocr/tessdata'' \<or> p = ''/usr/share/tesseract-ocr/tessdata''
      then Inr [''eng.traineddata'']
      else if p = ''/data/ocr'' then Inr [''tessdata'']
      else if p \<in> set scenario_dirs then Inr []
      else Inl FileNotFoundError)"

definition scenario :: "(string \<Rightarrow> nat list) \<Rightarrow> (string \<Rightarrow> nat \<Rightarrow> real) \<Rightarrow> world" where
  "scenario sched clk =
     bare_linux
       \<lparr>environ := (\<lambda>v. if v = ''TESSDATA_PREFIX'' then Some ''/data/ocr'' else None),
        path_is_dir := (\<lambda>p. Inr (p \<in> set scenario_dirs)),
        listdir := scenario_listdir,
        os_path_exists := (\<lambda>p. p \<in> set scenario_dirs),
        clock := clk,
        completed := sched\<rparr>"

definition scenario_world :: world where
  "scenario_world = scenario (\<lambda>pool. [0, 1, 2]) (\<lambda>thr n. 100)"

text \<open>The same machine when the crawl does not finish inside the window of the outer
  \<open>as_completed\<close>: only future 0 (\<open>_dummy_method\<close>) does.\<close>

definition slow_crawl_world :: world where
  "slow_crawl_world =
     scenario (\<lambda>pool. if pool = ''tier2'' then [0] else [0, 1, 2]) (\<lambda>thr n. 100)"

text \<open>The same machine with clocks that advance by a second at every reading.\<close>

definition ticking_world :: world where
  "ticking_world = scenario (\<lambda>pool. [0, 1, 2]) (\<lambda>thr n. 100 + real n)"

text \<open>Scenario 3: \<open>/opt/weird/tessdata\<close> and \<open>/opt/ocr/tessdata\<close> both hold
  \<open>eng.traineddata\<close>.\<close>

definition weird_listdir :: "string \<Rightarrow> py_error + string list" where
  "weird_listdir p =
     (if p = ''/opt'' then Inr [''weird'', ''ocr'']
      else if p = ''/opt/weird'' \<or> p = ''/opt/ocr'' then Inr [''tessdata'']
      else if p = ''/opt/weird/tessdata'' \<or> p = ''/opt/ocr/tessdata''
      then Inr [''eng.traineddata'']
      else Inl FileNotFoundError)"

definition weird_world :: world where
  "weird_world =
     bare_linux
       \<lparr>path_is_dir := (\<lambda>p. Inr (p \<in> set [''/opt'', ''/opt/weird'', ''/opt/ocr'',
                                           ''/opt/weird/tessdata'', ''/opt/ocr/tessdata''])),
        listdir := weird_listdir\<rparr>"

text \<open>A tree without end: every path is a directory that holds one directory \<open>bin\<close>.\<close>

definition endless_world :: world where
  "endless_world =
     bare_linux\<lparr>path_is_dir := (\<lambda>p. Inr True), listdir := (\<lambda>p. Inr [''bin''])\<rparr>"

definition bin_path :: "nat \<Rightarrow> ppath" where
  "bin_path k = PPath ''/'' (''opt'' # replicate k ''bin'')"

text \<open>The machine of scenario 1 when no directory may be listed.\<close>

definition locked_world :: world where
  "locked_world = scenario_world\<lparr>listdir := (\<lambda>p. Inl PermissionError)\<rparr>"

section \<open>The crawl\<close>

subsection \<open>What one crawl visits and records\<close>

lemma reach_self: "d \<le> max_depth w \<Longrightarrow> reach w p d p"
  unfolding reach_def by (rule exI [of _ "[]"]) simp

lemma reach_child:
  assumes "should_search_directory p" and "reach w (path_child p name) (Suc d) q"
  shows "reach w p d q"
proof -
  from assms(2) obtain ns where q: "q = PPath (anchor p) (parts p @ name # ns)"
    and len: "Suc d + length ns \<le> max_depth w"
    and acc: "\<forall>k<length ns. should_search_directory (PPath (anchor p) (parts p @ name # take k ns))"
    unfolding reach_def path_child_def by auto
  have "\<forall>k<length (name # ns). should_search_directory (PPath (anchor p) (parts p @ take k (name # ns)))"
  proof (intro allI impI)
    fix k assume k: "k < length (name # ns)"
    show "should_search_directory (PPath (anchor p) (parts p @ take k (name # ns)))"
    proof (cases k)
      case 0
      then show ?thesis using assms(1) by simp
    next
      case (Suc j)
      then show ?thesis using acc k by simp
    qed
  qed
  with q len show ?thesis
    unfolding reach_def by (intro exI [of _ "name # ns"]) simp
qed

lemma crawl_inv_refl: "crawl_inv w p d st st"
  unfolding crawl_inv_def by (intro exI [of _ "[]"]) simp

lemma crawl_inv_ticks: "crawl_inv w p d st (st\<lparr>ticks := n\<rparr>)"
  unfolding crawl_inv_def by (intro exI [of _ "[]"]) simp

lemma crawl_inv_trans:
  assumes "crawl_inv w p d st st1" and "crawl_inv w p d st1 st2"
  shows "crawl_inv w p d st st2"
proof -
  from assms(1) obtain v1 f1 where 1: "visited st1 = visited st @ v1" "found st1 = found st @ f1"
    "\<forall>q\<in>set v1. reach w p d q" "\<forall>f\<in>set f1. \<exists>q\<in>set v1. recorded w q f"
    unfolding crawl_inv_def by blast
  from assms(2) obtain v2 f2 where 2: "visited st2 = visited st1 @ v2" "found st2 = found st1 @ f2"
    "\<forall>q\<in>set v2. reach w p d q" "\<forall>f\<in>set f2. \<exists>q\<in>set v2. recorded w q f"
    unfolding crawl_inv_def by blast
  show ?thesis
    unfolding crawl_inv_def
    apply (rule exI [of _ "v1 @ v2"], rule exI [of _ "f1 @ f2"])
    using 1 2 by auto
qed

lemma crawl_inv_child:
  assumes "should_search_directory p" and "crawl_inv w (path_child p name) (Suc d) st st'"
  shows "crawl_inv w p d st st'"
  using assms unfolding crawl_inv_def by (meson reach_child)

lemma crawl_inv_visit:
  "d \<le> max_depth w \<Longrightarrow> crawl_inv w p d st (st\<lparr>ticks := n, visited := visited st @ [p]\<rparr>)"
  unfolding crawl_inv_def
  by (rule exI [of _ "[p]"], rule exI [of _ "[]"]) (simp add: reach_self)

lemma crawl_inv_record:
  "d \<le> max_depth w \<Longrightarrow> recorded w p f \<Longrightarrow>
   crawl_inv w p d st (st\<lparr>ticks := n, visited := visited st @ [p], found := found st @ [f]\<rparr>)"
  unfolding crawl_inv_def
  by (rule exI [of _ "[p]"], rule exI [of _ "[f]"]) (simp add: reach_self)

lemma crawl_invariant:
  "crawl_inv w p d st (snd (recursive_search w self clk verbose p d st))"
  "should_search_directory p \<Longrightarrow>
   crawl_inv w p d st (snd (search_children w self clk verbose p names d st))"
proof (induction w self clk verbose p d st and w self clk verbose p names d st
       rule: recursive_search_search_children.induct)
  case (1 w self clk verbose current_path depth st)
  let ?n = "snd (is_timeout self clk (ticks st))"
  let ?st1 = "st\<lparr>ticks := ?n, visited := visited st @ [current_path]\<rparr>"
  let ?valid = "if path_name current_path = ''tessdata''
                then is_valid_tessdata_dir w (path_str w current_path) else Inr False"
  let ?res = "snd (recursive_search w self clk verbose current_path depth st)"
  show ?case
  proof (cases "depth > max_depth w")
    case True
    then show ?thesis
      by (subst recursive_search.simps) (simp add: crawl_inv_refl)
  next
    case d: False
    show ?thesis
    proof (cases "fst (is_timeout self clk (ticks st))")
      case True
      with d show ?thesis
        by (subst recursive_search.simps) (simp add: crawl_inv_ticks)
    next
      case t: False
      from d have v: "crawl_inv w current_path depth st ?st1"
        by (simp add: crawl_inv_visit)
      show ?thesis
      proof (cases ?valid)
        case (Inl e)
        with d t have "?res = ?st1"
          by (subst recursive_search.simps) (simp add: except_OSError_pass_def Let_def)
        with v show ?thesis by simp
      next
        case (Inr b)
        show ?thesis
        proof (cases b)
          case True
          with Inr have nm: "path_name current_path = ''tessdata''"
            and ok: "is_valid_tessdata_dir w (path_str w current_path) = Inr True"
            by (auto split: if_splits)
          show ?thesis
          proof (cases "path_resolve w (path_str w current_path)")
            case (Inl e)
            with d t Inr True have "?res = ?st1"
              by (subst recursive_search.simps) (simp add: except_OSError_pass_def Let_def)
            with v show ?thesis by simp
          next
            case r: (Inr abs_path)
            with d t Inr True have "?res = ?st1\<lparr>found := found ?st1 @ [abs_path]\<rparr>"
              by (subst recursive_search.simps) (simp add: Let_def)
            moreover have "recorded w current_path abs_path"
              using nm ok r by (simp add: recorded_def)
            ultimately show ?thesis
              using d crawl_inv_record [of depth w current_path abs_path st ?n] by simp
          qed
        next
          case False
          show ?thesis
          proof (cases "should_search_directory current_path")
            case no: False
            with d t Inr False have "?res = ?st1"
              by (subst recursive_search.simps) (simp add: Let_def)
            with v show ?thesis by simp
          next
            case yes: True
            show ?thesis
            proof (cases "listdir w (path_str w current_path)")
              case (Inl e)
              with d t Inr False yes have "?res = ?st1"
                by (subst recursive_search.simps) (simp add: except_OSError_pass_def Let_def)
              with v show ?thesis by simp
            next
              case l: (Inr names)
              let ?ch = "search_children w self clk verbose current_path names depth ?st1"
              from d t Inr False yes l have "?res = snd ?ch"
                by (subst recursive_search.simps)
                   (simp add: except_OSError_pass_def Let_def split: prod.splits option.splits)
              moreover have "crawl_inv w current_path depth ?st1 (snd ?ch)"
                using "1.IH" [OF d t refl refl] Inr False yes l by simp
              ultimately show ?thesis
                using v crawl_inv_trans by metis
            qed
          qed
        qed
      qed
    qed
  qed
next
  case (2 w self clk verbose current_path depth st)
  show ?case by (simp add: crawl_inv_refl)
next
  case (3 w self clk verbose current_path name names depth st)
  let ?child = "path_child current_path name"
  let ?res = "snd (search_children w self clk verbose current_path (name # names) depth st)"
  note yes = "3.prems"
  show ?case
  proof (cases "path_is_dir w (path_str w ?child)")
    case (Inl e)
    then show ?thesis by (simp add: crawl_inv_refl)
  next
    case dir: (Inr b)
    show ?thesis
    proof (cases b)
      case False
      with dir yes "3.IH"(4) show ?thesis by simp
    next
      case True
      show ?thesis
      proof (cases "path_is_symlink w (path_str w ?child)")
        case (Inl e)
        with dir True show ?thesis by (simp add: crawl_inv_refl)
      next
        case ln: (Inr l)
        show ?thesis
        proof (cases l)
          case True
          with dir \<open>b\<close> ln yes "3.IH"(1) show ?thesis by simp
        next
          case False
          from \<open>b\<close> have bT: "b = True" by simp
          from False have lF: "l = False" by simp
          obtain r st' where rs: "recursive_search w self clk verbose ?child (depth + 1) st = (r, st')"
            by (cases "recursive_search w self clk verbose ?child (depth + 1) st")
          have "crawl_inv w ?child (Suc depth) st st'"
            using "3.IH"(2) [OF refl dir bT ln lF] rs by simp
          with yes have c: "crawl_inv w current_path depth st st'"
            by (rule crawl_inv_child)
          show ?thesis
          proof (cases r)
            case (Some e)
            with dir bT ln lF rs have "?res = st'" by simp
            with c show ?thesis by simp
          next
            case None
            have "crawl_inv w current_path depth st'
                    (snd (search_children w self clk verbose current_path names depth st'))"
              using "3.IH"(3) [OF refl dir bT ln lF rs [symmetric] None yes] .
            moreover from dir bT ln lF rs None
            have "?res = snd (search_children w self clk verbose current_path names depth st')"
              by simp
            ultimately show ?thesis using c crawl_inv_trans by metis
          qed
        qed
      qed
    qed
  qed
qed

subsection \<open>A whole crawl\<close>

lemma crawl_from_root:
  "crawl_inv w (Path_of w root_path) 0 crawl0 (search_directory_tree_state w self clk root_path verbose)"
  unfolding search_directory_tree_state_def by (rule crawl_invariant(1))

lemma crawl_visited_reach:
  assumes "q \<in> set (visited (search_directory_tree_state w self clk root_path verbose))"
  shows "reach w (Path_of w root_path) 0 q"
  using crawl_from_root [of w root_path self clk verbose] assms
  unfolding crawl_inv_def crawl0_def by auto

lemma crawl_found_recorded:
  assumes "f \<in> set (found (search_directory_tree_state w self clk root_path verbose))"
  shows "\<exists>q\<in>set (visited (search_directory_tree_state w self clk root_path verbose)). recorded w q f"
  using crawl_from_root [of w root_path self clk verbose] assms
  unfolding crawl_inv_def crawl0_def by auto


subsection \<open>The root /usr\<close>

lemma Path_of_usr: "os_type w \<noteq> ''windows'' \<Longrightarrow> Path_of w ''/usr'' = PPath ''/'' [''usr'']"
  by (simp add: Path_of_def is_windows_def posix_Path_def initial_slashes_def)

lemma not_should_search_usr: "\<not> should_search_directory (PPath ''/'' [''usr''])"
  by (simp add: should_search_directory_def path_name_def str_lower_def char_lower_def
      skip_dirs_def interesting_keywords_def)

text \<open>
  Claim C10.  On a platform other than Windows, whatever the file system, the budget,
  the clock and the verbose flag, \<open>_search_directory_tree\<close> started on \<open>/usr\<close> returns the
  empty list: the name of the root is \<open>usr\<close>, which is not \<open>tessdata\<close>, has three
  characters and holds no keyword, so \<open>_should_search_directory\<close> rejects it and nothing
  but the root itself is ever looked at, although \<open>/usr\<close> is one of the search roots.
\<close>

theorem usr_root_never_searched:
  assumes "os_type w \<noteq> ''windows''"
  shows "search_directory_tree w self clk ''/usr'' verbose = []
       \<and> set (visited (search_directory_tree_state w self clk ''/usr'' verbose))
           \<subseteq> {Path_of w ''/usr''}
       \<and> path_name (Path_of w ''/usr'') = ''usr''
       \<and> \<not> should_search_directory (Path_of w ''/usr'')
       \<and> ''/usr'' \<in> set (get_search_roots w)"
proof -
  have p: "Path_of w ''/usr'' = PPath ''/'' [''usr'']"
    using assms by (rule Path_of_usr)
  have "recursive_search w self clk verbose (PPath ''/'' [''usr'']) 0 crawl0
          = (None, if fst (is_timeout self clk 0)
                   then crawl0\<lparr>ticks := snd (is_timeout self clk 0)\<rparr>
                   else crawl0\<lparr>ticks := snd (is_timeout self clk 0),
                               visited := [PPath ''/'' [''usr'']]\<rparr>)"
    by (simp add: recursive_search.simps [of _ _ _ _ "PPath ''/'' [''usr'']" 0]
        not_should_search_usr path_name_def crawl0_def Let_def)
  then show ?thesis
    using assms
    by (auto simp: p search_directory_tree_def search_directory_tree_state_def crawl0_def
        not_should_search_usr path_name_def get_search_roots_def)
qed

theorem usr_root_never_searched_witness:
  "os_type scenario_world \<noteq> ''windows''
   \<and> is_valid_tessdata_dir scenario_world ''/usr/share/tesseract-ocr/tessdata'' = Inr True
   \<and> search_directory_tree scenario_world (TessdataFinder 10 4) (\<lambda>n. 100) ''/usr'' False = []"
  using usr_root_never_searched [of scenario_world "TessdataFinder 10 4" "\<lambda>n. 100" False]
  by (simp add: scenario_world_def scenario_def bare_linux_def is_valid_tessdata_dir_def scenario_dirs_def
      scenario_listdir_def name_suffix_def)

subsection \<open>Depth and termination\<close>

lemma reach_depth:
  "reach w p 0 q \<Longrightarrow> \<exists>ns. q = PPath (anchor p) (parts p @ ns) \<and> length ns \<le> max_depth w"
  unfolding reach_def by auto

lemma recursive_search_stops:
  assumes "max_depth w < d \<or> fst (is_timeout self clk (ticks st))"
  shows "fst (recursive_search w self clk verbose p d st) = None
       \<and> visited (snd (recursive_search w self clk verbose p d st)) = visited st
       \<and> found (snd (recursive_search w self clk verbose p d st)) = found st"
  using assms by (subst (1 2 3) recursive_search.simps) auto

text \<open>
  Claim C8.  The crawl of one root terminates: \<open>recursive_search\<close> and its loop are total
  functions, their termination being proved from the depth alone, so also on a tree
  without end and whatever the links.  A call returns at once, visiting and recording
  nothing, when its depth exceeds the maximum (4 on Windows, 5 elsewhere) or the budget
  has expired.  Every path visited lies at most \<open>max_depth\<close> components below the root,
  and every entry of the result is the resolved form of such a path.
\<close>

theorem crawl_depth_bounded:
  "max_depth w = (if os_type w = ''windows'' then 4 else 5)
   \<and> (\<forall>p d (st::crawl). max_depth w < d \<or> fst (is_timeout self clk (ticks st)) \<longrightarrow>
         fst (recursive_search w self clk verbose p d st) = None
         \<and> visited (snd (recursive_search w self clk verbose p d st)) = visited st
         \<and> found (snd (recursive_search w self clk verbose p d st)) = found st)
   \<and> (\<forall>q\<in>set (visited (search_directory_tree_state w self clk root_path verbose)).
         \<exists>ns. q = PPath (anchor (Path_of w root_path)) (parts (Path_of w root_path) @ ns)
              \<and> length ns \<le> max_depth w)
   \<and> (\<forall>f\<in>set (search_directory_tree w self clk root_path verbose).
         \<exists>ns. length ns \<le> max_depth w
              \<and> recorded w (PPath (anchor (Path_of w root_path))
                                  (parts (Path_of w root_path) @ ns)) f)"
proof (intro conjI ballI allI impI)
  show "max_depth w = (if os_type w = ''windows'' then 4 else 5)"
    by (simp add: max_depth_def)
next
  fix p d and st :: crawl
  assume "max_depth w < d \<or> fst (is_timeout self clk (ticks st))"
  then show "fst (recursive_search w self clk verbose p d st) = None"
    and "visited (snd (recursive_search w self clk verbose p d st)) = visited st"
    and "found (snd (recursive_search w self clk verbose p d st)) = found st"
    using recursive_search_stops by blast+
next
  fix q
  assume "q \<in> set (visited (search_directory_tree_state w self clk root_path verbose))"
  then have "reach w (Path_of w root_path) 0 q"
    by (rule crawl_visited_reach)
  then show "\<exists>ns. q = PPath (anchor (Path_of w root_path)) (parts (Path_of w root_path) @ ns)
                 \<and> length ns \<le> max_depth w"
    by (rule reach_depth)
next
  fix f
  assume "f \<in> set (search_directory_tree w self clk root_path verbose)"
  then obtain q where q: "q \<in> set (visited (search_directory_tree_state w self clk root_path verbose))"
    and rec: "recorded w q f"
    unfolding search_directory_tree_def using crawl_found_recorded by blast
  from q have "reach w (Path_of w root_path) 0 q"
    by (rule crawl_visited_reach)
  then obtain ns where "q = PPath (anchor (Path_of w root_path)) (parts (Path_of w root_path) @ ns)"
    and "length ns \<le> max_depth w"
    using reach_depth by blast
  with rec show "\<exists>ns. length ns \<le> max_depth w
              \<and> recorded w (PPath (anchor (Path_of w root_path))
                                  (parts (Path_of w root_path) @ ns)) f"
    by blast
qed

lemmas crawl_eval =
  search_directory_tree_def search_directory_tree_state_def recursive_search.simps
  crawl0_def Path_of_def is_windows_def posix_Path_def initial_slashes_def max_depth_def
  is_timeout_def elapsed_def TessdataFinder_def path_name_def path_str_def path_sep_def
  path_child_def should_search_directory_def str_lower_def char_lower_def skip_dirs_def
  interesting_keywords_def is_valid_tessdata_dir_def name_suffix_def except_OSError_pass_def

lemma endless_crawl:
  "visited (search_directory_tree_state endless_world (TessdataFinder 10 4) (\<lambda>n. 100) ''/opt'' False)
     = map bin_path [0, 1, 2, 3, 4, 5]"
  by (simp add: crawl_eval endless_world_def bare_linux_def bin_path_def eval_nat_numeral)

theorem crawl_depth_bounded_witness:
  "bin_path 5 \<in> set (visited (search_directory_tree_state endless_world (TessdataFinder 10 4)
                                  (\<lambda>n. 100) ''/opt'' False))
   \<and> bin_path 6 \<notin> set (visited (search_directory_tree_state endless_world (TessdataFinder 10 4)
                                  (\<lambda>n. 100) ''/opt'' False))
   \<and> (\<exists>ns. bin_path 5 = PPath (anchor (Path_of endless_world ''/opt''))
                               (parts (Path_of endless_world ''/opt'') @ ns)
           \<and> length ns \<le> max_depth endless_world)
   \<and> max_depth endless_world = 5"
proof -
  have in5: "bin_path 5 \<in> set (visited (search_directory_tree_state endless_world
               (TessdataFinder 10 4) (\<lambda>n. 100) ''/opt'' False))"
    by (simp add: endless_crawl)
  have out6: "bin_path 6 \<notin> set (visited (search_directory_tree_state endless_world
               (TessdataFinder 10 4) (\<lambda>n. 100) ''/opt'' False))"
    by (simp add: endless_crawl bin_path_def eval_nat_numeral)
  have m: "max_depth endless_world = 5"
    by (simp add: max_depth_def endless_world_def bare_linux_def)
  have "\<forall>q\<in>set (visited (search_directory_tree_state endless_world (TessdataFinder 10 4)
                            (\<lambda>n. 100) ''/opt'' False)).
          \<exists>ns. q = PPath (anchor (Path_of endless_world ''/opt''))
                         (parts (Path_of endless_world ''/opt'') @ ns)
               \<and> length ns \<le> max_depth endless_world"
    using crawl_depth_bounded [of endless_world "TessdataFinder 10 4" "\<lambda>n. 100" False "''/opt''"]
    by blast
  from this in5
  have "\<exists>ns. bin_path 5 = PPath (anchor (Path_of endless_world ''/opt''))
                               (parts (Path_of endless_world ''/opt'') @ ns)
             \<and> length ns \<le> max_depth endless_world"
    by (rule bspec)
  with in5 out6 m show ?thesis by blast
qed

subsection \<open>Pruning\<close>

lemma reach_accepted:
  "reach w p 0 q \<Longrightarrow>
   \<exists>ns. q = PPath (anchor p) (parts p @ ns)
      \<and> (\<forall>k<length ns. should_search_directory (PPath (anchor p) (parts p @ take k ns)))"
  unfolding reach_def by auto

lemma not_should_search_weird: "\<not> should_search_directory (PPath ''/'' [''opt'', ''weird''])"
  by (simp add: should_search_directory_def path_name_def str_lower_def char_lower_def
      skip_dirs_def interesting_keywords_def)

lemma weird_not_reached:
  assumes "os_type w \<noteq> ''windows''" and "root_path \<in> set (get_search_roots w)"
  shows "\<not> reach w (Path_of w root_path) 0 (PPath ''/'' [''opt'', ''weird'', ''tessdata''])"
proof
  assume r: "reach w (Path_of w root_path) 0 (PPath ''/'' [''opt'', ''weird'', ''tessdata''])"
  from assms have "root_path = ''/usr'' \<or> root_path = ''/usr/local'' \<or> root_path = ''/opt''"
    by (simp add: get_search_roots_def)
  then consider "Path_of w root_path = PPath ''/'' [''usr'']"
    | "Path_of w root_path = PPath ''/'' [''usr'', ''local'']"
    | "Path_of w root_path = PPath ''/'' [''opt'']"
    using assms(1)
    by (auto simp: Path_of_def is_windows_def posix_Path_def initial_slashes_def)
  then show False
  proof cases
    case 1
    with r show False unfolding reach_def by auto
  next
    case 2
    with r show False unfolding reach_def by auto
  next
    case 3
    with r obtain ns where ns: "[''opt'', ''weird'', ''tessdata''] = ''opt'' # ns"
      and acc: "\<forall>k<length ns. should_search_directory (PPath ''/'' (''opt'' # take k ns))"
      unfolding reach_def by auto
    from ns have "ns = [''weird'', ''tessdata'']" by simp
    with acc have "should_search_directory (PPath ''/'' (''opt'' # take 1 [''weird'', ''tessdata'']))"
      by (metis length_Cons less_Suc_eq_0_disj list.size(3) One_nat_def)
    with not_should_search_weird show False by simp
  qed
qed

lemma smart_crawled:
  assumes "q \<in> set (snd (snd (search_filesystem_smart w self clk n verbose)))"
  shows "\<exists>root_path\<in>set (get_search_roots w).
           q \<in> set (visited (search_directory_tree_state w self
                    (clock w (''crawl '' @ root_path)) root_path verbose))"
  using assms
  by (auto simp: search_filesystem_smart_def Let_def split: if_splits prod.splits)

text \<open>
  Claim C7.  \<open>_should_search_directory\<close> accepts a directory exactly when its lower-case
  name is not in the deny-list and either holds one of the keywords \<open>tesseract\<close>, \<open>ocr\<close>,
  \<open>program\<close>, \<open>share\<close>, \<open>local\<close>, \<open>opt\<close>, \<open>tools\<close>, \<open>bin\<close> or is shorter than three
  characters.  A crawl reaches a path only through directories that are accepted: every
  path it visits lies below the root, and the root and every directory between the root
  and that path are accepted; every entry of the result was recorded on a visited
  path.  So on a platform other than Windows no crawl of
  \<open>_search_filesystem_smart\<close> ever visits \<open>/opt/weird/tessdata\<close>, whose parent \<open>weird\<close>
  holds no keyword and has five characters.
\<close>

theorem crawl_only_through_accepted:
  "(should_search_directory p \<longleftrightarrow>
      str_lower (path_name p) \<notin> set skip_dirs
      \<and> ((\<exists>keyword\<in>set [''tesseract'', ''ocr'', ''program'', ''share'', ''local'', ''opt'',
                           ''tools'', ''bin'']. str_in keyword (str_lower (path_name p)))
         \<or> length (str_lower (path_name p)) < 3))
   \<and> (\<forall>q\<in>set (visited (search_directory_tree_state w self clk root_path verbose)).
         \<exists>ns. q = PPath (anchor (Path_of w root_path)) (parts (Path_of w root_path) @ ns)
            \<and> (\<forall>k<length ns. should_search_directory
                   (PPath (anchor (Path_of w root_path))
                          (parts (Path_of w root_path) @ take k ns))))
   \<and> (\<forall>f\<in>set (search_directory_tree w self clk root_path verbose).
         \<exists>q\<in>set (visited (search_directory_tree_state w self clk root_path verbose)).
           recorded w q f)
   \<and> (os_type w \<noteq> ''windows'' \<longrightarrow>
         PPath ''/'' [''opt'', ''weird'', ''tessdata'']
           \<notin> set (snd (snd (search_filesystem_smart w self clk n verbose))))"
proof (intro conjI ballI impI)
  show "should_search_directory p \<longleftrightarrow>
      str_lower (path_name p) \<notin> set skip_dirs
      \<and> ((\<exists>keyword\<in>set [''tesseract'', ''ocr'', ''program'', ''share'', ''local'', ''opt'',
                           ''tools'', ''bin'']. str_in keyword (str_lower (path_name p)))
         \<or> length (str_lower (path_name p)) < 3)"
    unfolding should_search_directory_def interesting_keywords_def Let_def list_ex_iff
    by simp
next
  fix q
  assume "q \<in> set (visited (search_directory_tree_state w self clk root_path verbose))"
  then have "reach w (Path_of w root_path) 0 q"
    by (rule crawl_visited_reach)
  then show "\<exists>ns. q = PPath (anchor (Path_of w root_path)) (parts (Path_of w root_path) @ ns)
            \<and> (\<forall>k<length ns. should_search_directory
                   (PPath (anchor (Path_of w root_path))
                          (parts (Path_of w root_path) @ take k ns)))"
    by (rule reach_accepted)
next
  fix f
  assume "f \<in> set (search_directory_tree w self clk root_path verbose)"
  then show "\<exists>q\<in>set (visited (search_directory_tree_state w self clk root_path verbose)).
           recorded w q f"
    unfolding search_directory_tree_def by (rule crawl_found_recorded)
next
  assume os: "os_type w \<noteq> ''windows''"
  show "PPath ''/'' [''opt'', ''weird'', ''tessdata'']
           \<notin> set (snd (snd (search_filesystem_smart w self clk n verbose)))"
  proof
    assume "PPath ''/'' [''opt'', ''weird'', ''tessdata'']
           \<in> set (snd (snd (search_filesystem_smart w self clk n verbose)))"
    then obtain root_path where "root_path \<in> set (get_search_roots w)"
      and "PPath ''/'' [''opt'', ''weird'', ''tessdata'']
             \<in> set (visited (search_directory_tree_state w self
                    (clock w (''crawl '' @ root_path)) root_path verbose))"
      using smart_crawled by blast
    then show False
      using weird_not_reached [OF os] crawl_visited_reach by blast
  qed
qed

lemma weird_crawl:
  "search_directory_tree_state weird_world (TessdataFinder 10 4) (\<lambda>n. 100) ''/opt'' False
     = \<lparr>ticks = 0, found = [''/opt/ocr/tessdata''],
        visited = [PPath ''/'' [''opt''], PPath ''/'' [''opt'', ''weird''],
                   PPath ''/'' [''opt'', ''ocr''], PPath ''/'' [''opt'', ''ocr'', ''tessdata'']]\<rparr>"
  by (simp add: crawl_eval weird_world_def weird_listdir_def bare_linux_def)

theorem crawl_only_through_accepted_witness:
  "is_valid_tessdata_dir weird_world ''/opt/weird/tessdata'' = Inr True
   \<and> os_type weird_world \<noteq> ''windows''
   \<and> search_directory_tree weird_world (TessdataFinder 10 4) (\<lambda>n. 100) ''/opt'' False
       = [''/opt/ocr/tessdata'']
   \<and> PPath ''/'' [''opt'', ''weird'', ''tessdata'']
       \<notin> set (snd (snd (search_filesystem_smart weird_world (TessdataFinder 10 4)
                          (\<lambda>n. 100) 0 False)))
   \<and> (\<exists>q\<in>set (visited (search_directory_tree_state weird_world (TessdataFinder 10 4)
                           (\<lambda>n. 100) ''/opt'' False)).
         recorded weird_world q ''/opt/ocr/tessdata'')"
proof -
  have v: "is_valid_tessdata_dir weird_world ''/opt/weird/tessdata'' = Inr True"
    by (simp add: is_valid_tessdata_dir_def weird_world_def weird_listdir_def bare_linux_def
        name_suffix_def)
  have os: "os_type weird_world \<noteq> ''windows''"
    by (simp add: weird_world_def bare_linux_def)
  have f: "search_directory_tree weird_world (TessdataFinder 10 4) (\<lambda>n. 100) ''/opt'' False
       = [''/opt/ocr/tessdata'']"
    by (simp add: search_directory_tree_def weird_crawl)
  note at_opt = crawl_only_through_accepted
    [of "PPath ''/'' [''opt'']" weird_world "TessdataFinder 10 4" "\<lambda>n. 100" "''/opt''" False 0]
  from at_opt os have n: "PPath ''/'' [''opt'', ''weird'', ''tessdata'']
       \<notin> set (snd (snd (search_filesystem_smart weird_world (TessdataFinder 10 4)
                          (\<lambda>n. 100) 0 False)))"
    by blast
  from at_opt have "\<forall>f\<in>set (search_directory_tree weird_world (TessdataFinder 10 4) (\<lambda>n. 100) ''/opt'' False).
         \<exists>q\<in>set (visited (search_directory_tree_state weird_world (TessdataFinder 10 4)
                           (\<lambda>n. 100) ''/opt'' False)).
           recorded weird_world q f"
    by blast
  with f have "\<exists>q\<in>set (visited (search_directory_tree_state weird_world (TessdataFinder 10 4)
                           (\<lambda>n. 100) ''/opt'' False)).
         recorded weird_world q ''/opt/ocr/tessdata''"
    by simp
  with v os f n show ?thesis by blast
qed

section \<open>The validator\<close>

lemma rfind_dot_append:
  "rfind_dot (xs @ ys) =
     (case rfind_dot ys of Some i \<Rightarrow> Some (length xs + i) | None \<Rightarrow> rfind_dot xs)"
  by (induction xs) (auto split: option.splits)

lemma rfind_dot_less: "rfind_dot s = Some i \<Longrightarrow> i < length s"
  by (induction s arbitrary: i) (auto split: option.splits if_splits)

lemma name_suffix_traineddata:
  "name_suffix f = ''.traineddata'' \<longleftrightarrow> (\<exists>stem. stem \<noteq> [] \<and> f = stem @ ''.traineddata'')"
proof
  assume a: "name_suffix f = ''.traineddata''"
  then obtain i where i: "rfind_dot f = Some i" "0 < i" "drop i f = ''.traineddata''"
    by (auto simp: name_suffix_def split: option.splits if_splits)
  from i(1) have "i < length f" by (rule rfind_dot_less)
  with i(2) have "take i f \<noteq> []" by auto
  moreover have "f = take i f @ ''.traineddata''"
    using i(3) by (metis append_take_drop_id)
  ultimately show "\<exists>stem. stem \<noteq> [] \<and> f = stem @ ''.traineddata''" by blast
next
  assume "\<exists>stem. stem \<noteq> [] \<and> f = stem @ ''.traineddata''"
  then obtain stem where s: "stem \<noteq> []" "f = stem @ ''.traineddata''" by blast
  have "rfind_dot ''.traineddata'' = Some 0" by simp
  with s(2) have "rfind_dot f = Some (length stem)"
    by (simp only: rfind_dot_append) simp
  with s show "name_suffix f = ''.traineddata''"
    by (simp add: name_suffix_def)
qed

text \<open>
  Claim C3.  When the only exceptions that \<open>is_dir\<close> and \<open>iterdir\<close> raise on the path are
  of the \<open>OSError\<close> family (permission denied, vanished path and the like),
  \<open>_is_valid_tessdata_dir\<close> raises nothing, and it returns \<open>True\<close> exactly when the path is
  an existing directory whose listing has an entry with the suffix \<open>.traineddata\<close>, that
  is an entry named by a non-empty stem followed by \<open>.traineddata\<close>; in particular an
  error of either call makes it \<open>False\<close>.
\<close>

theorem is_valid_tessdata_dir_iff:
  assumes "\<forall>e. path_is_dir w path = Inl e \<longrightarrow> is_OSError e"
      and "\<forall>e. listdir w path = Inl e \<longrightarrow> is_OSError e"
  shows "is_valid_tessdata_dir w path =
           Inr (path_is_dir w path = Inr True
                \<and> (\<exists>names. listdir w path = Inr names
                      \<and> (\<exists>f\<in>set names. name_suffix f = ''.traineddata'')))
       \<and> (\<forall>f. name_suffix f = ''.traineddata''
               \<longleftrightarrow> (\<exists>stem. stem \<noteq> [] \<and> f = stem @ ''.traineddata''))"
proof
  show "is_valid_tessdata_dir w path =
           Inr (path_is_dir w path = Inr True
                \<and> (\<exists>names. listdir w path = Inr names
                      \<and> (\<exists>f\<in>set names. name_suffix f = ''.traineddata'')))"
    using assms
    by (auto simp: is_valid_tessdata_dir_def catch_OSError_False_def list_ex_iff
             split: sum.splits bool.splits)
  show "\<forall>f. name_suffix f = ''.traineddata''
               \<longleftrightarrow> (\<exists>stem. stem \<noteq> [] \<and> f = stem @ ''.traineddata'')"
    using name_suffix_traineddata by blast
qed

theorem is_valid_tessdata_dir_iff_witness:
  "is_valid_tessdata_dir scenario_world ''/data/ocr/tessdata'' = Inr True
   \<and> is_valid_tessdata_dir scenario_world ''/data/ocr'' = Inr False
   \<and> is_valid_tessdata_dir scenario_world ''/nowhere'' = Inr False
   \<and> is_valid_tessdata_dir locked_world ''/data/ocr/tessdata'' = Inr False"
proof -
  have d: "\<forall>e. path_is_dir scenario_world p = Inl e \<longrightarrow> is_OSError e" for p
    by (simp add: scenario_world_def scenario_def bare_linux_def)
  have l: "\<forall>e. listdir scenario_world p = Inl e \<longrightarrow> is_OSError e" for p
    by (auto simp: scenario_world_def scenario_def bare_linux_def scenario_listdir_def)
  have d': "\<forall>e. path_is_dir locked_world p = Inl e \<longrightarrow> is_OSError e" for p
    by (simp add: locked_world_def scenario_world_def scenario_def bare_linux_def)
  have l': "\<forall>e. listdir locked_world p = Inl e \<longrightarrow> is_OSError e" for p
    by (auto simp: locked_world_def scenario_world_def scenario_def bare_linux_def)
  show ?thesis
    using is_valid_tessdata_dir_iff [OF d l, of "''/data/ocr/tessdata''"]
          is_valid_tessdata_dir_iff [OF d l, of "''/data/ocr''"]
          is_valid_tessdata_dir_iff [OF d l, of "''/nowhere''"]
          is_valid_tessdata_dir_iff [OF d' l', of "''/data/ocr/tessdata''"]
    by (simp add: locked_world_def scenario_world_def scenario_def bare_linux_def scenario_listdir_def
        scenario_dirs_def name_suffix_def)
qed

section \<open>posixpath.normpath is idempotent\<close>

lemma split_on_nonempty: "split_on sep s \<noteq> []"
  by (induction s) (auto split: list.splits)

lemma split_on_no_sep: "x \<in> set (split_on sep s) \<Longrightarrow> sep \<notin> set x"
  by (induction s arbitrary: x) (auto split: list.splits if_splits)

lemma split_on_single: "sep \<notin> set x \<Longrightarrow> split_on sep x = [x]"
  by (induction x) auto

lemma split_on_append: "sep \<notin> set x \<Longrightarrow> split_on sep (x @ sep # rest) = x # split_on sep rest"
  by (induction x) auto

lemma split_on_replicate: "split_on sep (replicate k sep @ s) = replicate k [] @ split_on sep s"
  by (induction k) auto

lemma split_on_replicate_only: "split_on sep (replicate k sep) = replicate k [] @ [[]]"
  by (induction k) auto

lemma split_on_join:
  "cs \<noteq> [] \<Longrightarrow> \<forall>c\<in>set cs. sep \<notin> set c \<Longrightarrow> split_on sep (str_join [sep] cs) = cs"
proof (induction "[sep]" cs rule: str_join.induct)
  case 1
  then show ?case by simp
next
  case (2 x)
  then show ?case by (simp add: split_on_single)
next
  case (3 x y ys)
  then show ?case by (simp add: split_on_append)
qed

lemma str_join_no_slash_start:
  "cs \<noteq> [] \<Longrightarrow> hd cs \<noteq> [] \<Longrightarrow> c \<notin> set (hd cs) \<Longrightarrow>
   \<exists>x t. str_join sep cs = x # t \<and> x \<noteq> c"
  by (induction sep cs rule: str_join.induct) (auto simp: neq_Nil_conv)

lemma norm_comps_skip_empty: "norm_comps sl acc (replicate k [] @ xs) = norm_comps sl acc xs"
  by (induction k) auto

lemma set_dropWhile_butlast: "set (dropWhile P (butlast xs)) \<subseteq> set (dropWhile P xs)"
  by (induction xs) (auto dest: in_set_butlastD)

lemma normal_comps_Nil: "normal_comps sl []"
  by (simp add: normal_comps_def)

lemma normal_comps_butlast: "normal_comps sl acc \<Longrightarrow> normal_comps sl (butlast acc)"
  unfolding normal_comps_def
  using set_dropWhile_butlast [of "\<lambda>c. c = ''..''" acc]
  by (auto dest: in_set_butlastD)

lemma dotdot_last_all:
  assumes "''..'' \<notin> set (dropWhile (\<lambda>c. c = ''..'') acc)" and "acc \<noteq> []" and "last acc = ''..''"
  shows "\<forall>c\<in>set acc. c = ''..''"
proof (rule ccontr)
  assume "\<not> (\<forall>c\<in>set acc. c = ''..'')"
  then have ne: "dropWhile (\<lambda>c. c = ''..'') acc \<noteq> []" by (simp add: dropWhile_eq_Nil_conv)
  then have "last (dropWhile (\<lambda>c. c = ''..'') acc) = last acc"
    by (metis append_self_conv2 last_appendR takeWhile_dropWhile_id)
  with ne assms(3) have "''..'' \<in> set (dropWhile (\<lambda>c. c = ''..'') acc)"
    by (metis last_in_set)
  with assms(1) show False by simp
qed

lemma normal_comps_snoc:
  assumes "normal_comps sl acc" and "c \<noteq> []" and "c \<noteq> ''.''" and "CHR ''/'' \<notin> set c"
      and "c \<noteq> ''..'' \<or> (sl = 0 \<and> acc = []) \<or> (acc \<noteq> [] \<and> last acc = ''..'')"
  shows "normal_comps sl (acc @ [c])"
proof (cases "c = ''..''")
  case False
  with assms(1-4) show ?thesis
    by (auto simp: normal_comps_def dropWhile_append split: if_splits)
next
  case True
  with assms(5) consider "sl = 0" "acc = []" | "acc \<noteq> []" "last acc = ''..''" by blast
  then show ?thesis
  proof cases
    case 1
    with True show ?thesis by (simp add: normal_comps_def)
  next
    case 2
    show ?thesis
    proof (cases "sl = 0")
      case sl: True
      with assms(1) have "''..'' \<notin> set (dropWhile (\<lambda>c. c = ''..'') acc)"
        by (simp add: normal_comps_def)
      with 2 have "\<forall>c\<in>set acc. c = ''..''" using dotdot_last_all [of acc] by blast
      with assms(1) True sl show ?thesis
        by (auto simp: normal_comps_def dropWhile_append)
    next
      case False
      with assms(1) have "''..'' \<notin> set acc" by (simp add: normal_comps_def)
      with 2 show ?thesis by (metis last_in_set)
    qed
  qed
qed

lemma norm_comps_normal:
  "normal_comps sl acc \<Longrightarrow> \<forall>x\<in>set xs. CHR ''/'' \<notin> set x \<Longrightarrow>
   normal_comps sl (norm_comps sl acc xs)"
proof (induction xs arbitrary: acc)
  case Nil
  then show ?case by simp
next
  case (Cons c xs)
  from Cons.prems(2) have cs: "CHR ''/'' \<notin> set c" and rest: "\<forall>x\<in>set xs. CHR ''/'' \<notin> set x"
    by auto
  show ?case
  proof (cases "c = [] \<or> c = ''.''")
    case True
    with Cons.IH [OF Cons.prems(1) rest] show ?thesis by auto
  next
    case skip: False
    show ?thesis
    proof (cases "c \<noteq> ''..'' \<or> (sl = 0 \<and> acc = []) \<or> (acc \<noteq> [] \<and> last acc = ''..'')")
      case True
      with skip cs Cons.prems(1) have "normal_comps sl (acc @ [c])"
        by (intro normal_comps_snoc) auto
      from Cons.IH [OF this rest] skip True show ?thesis by auto
    next
      case False
      show ?thesis
      proof (cases "acc = []")
        case True
        with Cons.IH [OF Cons.prems(1) rest] skip False show ?thesis by auto
      next
        case ne: False
        from Cons.prems(1) have "normal_comps sl (butlast acc)" by (rule normal_comps_butlast)
        from Cons.IH [OF this rest] skip False ne show ?thesis by auto
      qed
    qed
  qed
qed

lemma norm_comps_fixed:
  "normal_comps sl (acc @ cs) \<Longrightarrow> norm_comps sl acc cs = acc @ cs"
proof (induction cs arbitrary: acc)
  case Nil
  then show ?case by simp
next
  case (Cons c cs)
  from Cons.prems have c: "c \<noteq> []" "c \<noteq> ''.''"
    by (auto simp: normal_comps_def)
  have app: "c \<noteq> ''..'' \<or> (sl = 0 \<and> acc = []) \<or> (acc \<noteq> [] \<and> last acc = ''..'')"
  proof (cases "c = ''..''")
    case False
    then show ?thesis by simp
  next
    case True
    with Cons.prems have sl: "sl = 0"
      by (auto simp: normal_comps_def split: if_splits)
    with Cons.prems True have "''..'' \<notin> set (dropWhile (\<lambda>c. c = ''..'') (acc @ ''..'' # cs))"
      by (simp add: normal_comps_def)
    then have "\<forall>x\<in>set acc. x = ''..''"
      by (auto simp: dropWhile_append split: if_splits)
    with sl show ?thesis by (cases acc rule: rev_cases) auto
  qed
  from Cons.prems have "normal_comps sl ((acc @ [c]) @ cs)" by simp
  then have "norm_comps sl (acc @ [c]) cs = (acc @ [c]) @ cs" by (rule Cons.IH)
  with c app show ?case by auto
qed

lemma initial_slashes_le: "initial_slashes path \<le> 2"
  by (simp add: initial_slashes_def)

lemma initial_slashes_replicate:
  assumes "sl \<le> 2" and "t = [] \<or> (\<exists>x t'. t = x # t' \<and> x \<noteq> CHR ''/'')"
  shows "initial_slashes (replicate sl CHR ''/'' @ t) = sl"
proof -
  from assms(1) consider "sl = 0" | "sl = 1" | "sl = 2" by linarith
  then show ?thesis
    using assms(2) by cases (auto simp: initial_slashes_def eval_nat_numeral)
qed

lemma normpath_of_normal:
  assumes n: "normal_comps sl cs" and sl: "sl \<le> 2"
      and ne: "replicate sl CHR ''/'' @ str_join ''/'' cs \<noteq> []"
  shows "posix_normpath (replicate sl CHR ''/'' @ str_join ''/'' cs)
           = replicate sl CHR ''/'' @ str_join ''/'' cs"
proof -
  let ?p = "replicate sl CHR ''/'' @ str_join ''/'' cs"
  have start: "str_join ''/'' cs = [] \<or> (\<exists>x t'. str_join ''/'' cs = x # t' \<and> x \<noteq> CHR ''/'')"
  proof (cases cs)
    case Nil
    then show ?thesis by simp
  next
    case (Cons c cs')
    with n have "hd cs \<noteq> []" "CHR ''/'' \<notin> set (hd cs)" by (auto simp: normal_comps_def)
    with Cons show ?thesis using str_join_no_slash_start [of cs "CHR ''/''" "''/''"] by auto
  qed
  with sl have i: "initial_slashes ?p = sl" by (rule initial_slashes_replicate)
  have comps: "norm_comps sl [] (split_on CHR ''/'' ?p) = cs"
  proof (cases cs)
    case Nil
    then show ?thesis by (simp add: split_on_replicate_only norm_comps_skip_empty)
  next
    case (Cons c cs')
    with n have "split_on CHR ''/'' (str_join ''/'' cs) = cs"
      by (intro split_on_join) (auto simp: normal_comps_def)
    moreover from n have "norm_comps sl [] cs = [] @ cs"
      by (intro norm_comps_fixed) simp
    ultimately show ?thesis by (simp add: split_on_replicate norm_comps_skip_empty)
  qed
  from ne i comps show ?thesis by (simp add: posix_normpath_def Let_def)
qed

lemma posix_normpath_idem: "posix_normpath (posix_normpath path) = posix_normpath path"
proof (cases "path = []")
  case True
  then show ?thesis by (simp add: posix_normpath_def initial_slashes_def)
next
  case False
  let ?sl = "initial_slashes path"
  let ?cs = "norm_comps ?sl [] (split_on CHR ''/'' path)"
  let ?p = "replicate ?sl CHR ''/'' @ str_join ''/'' ?cs"
  have n: "normal_comps ?sl ?cs"
    by (intro norm_comps_normal normal_comps_Nil) (auto dest: split_on_no_sep)
  from False have eq: "posix_normpath path = (if ?p = [] then ''.'' else ?p)"
    by (simp add: posix_normpath_def Let_def)
  show ?thesis
  proof (cases "?p = []")
    case True
    with eq have "posix_normpath path = ''.''" by metis
    then show ?thesis by (simp add: posix_normpath_def initial_slashes_def)
  next
    case ne: False
    with eq have "posix_normpath path = ?p" by metis
    with normpath_of_normal [OF n initial_slashes_le ne] show ?thesis by simp
  qed
qed

section \<open>The prioritizer\<close>

lemma unique_loop_set:
  "set (unique_loop w paths seen acc) = set acc \<union> (os_path_normpath w ` set paths - seen)"
  by (induction paths arbitrary: seen acc) (auto simp: Let_def)


lemma prioritize_paths_set:
  "set (prioritize_paths w paths) = os_path_normpath w ` set paths"
  by (simp add: prioritize_paths_def unique_loop_set)


lemma prioritize_paths_sorted: "sorted (map priority_key (prioritize_paths w paths))"
  by (simp add: prioritize_paths_def)

lemma sorted_before:
  "sorted (map f xs) \<Longrightarrow> a \<in> set xs \<Longrightarrow> b \<in> set xs \<Longrightarrow> f a < f b \<Longrightarrow> before xs a b"
proof (induction xs)
  case Nil
  then show ?case by simp
next
  case (Cons x xs)
  show ?case
  proof (cases "x = a")
    case True
    with Cons.prems have "b \<in> set xs" by auto
    with True show ?thesis by simp
  next
    case False
    have "b \<noteq> x"
    proof
      assume "b = x"
      moreover from False Cons.prems have "a \<in> set xs" by auto
      ultimately have "f b \<le> f a" using Cons.prems(1) by auto
      with Cons.prems(4) show False by simp
    qed
    with False Cons show ?thesis by auto
  qed
qed

lemma priority_key_score:
  "fst (priority_key path) =
     (if has_engine_token path then - 1000 else 0)
     + (if in_system_location path then - 100 else 0)
     + (if has_digit path then - 10 else 0)"
  by (simp add: priority_key_def has_engine_token_def in_system_location_def has_digit_def Let_def)


lemmas prioritize_eval =
  prioritize_paths_def os_path_normpath_def is_windows_def posix_normpath_def
  initial_slashes_def priority_key_def str_lower_def char_lower_def isdigit_def
  has_engine_token_def in_system_location_def has_digit_def


section \<open>What the probes put into found\_paths\<close>

text \<open>
  Every path a probe returns is an output of \<open>os.path.abspath\<close> or of \<open>Path.resolve\<close>, so
  where these return normal forms, \<open>found_paths\<close> holds normal forms only: the one call of
  \<open>_prioritize_paths\<close>, in \<open>find_all_tessdata_paths\<close>, is on paths that \<open>os.path.normpath\<close>
  leaves as they are.
\<close>

lemma posix_abspath_normal: "posix_normpath (posix_abspath cwd p) = posix_abspath cwd p"
  by (simp add: posix_abspath_def posix_normpath_idem)

lemma abspath_normal: "\<not> is_windows w \<Longrightarrow> normal_form w (os_path_abspath w p)"
  by (simp add: normal_form_def os_path_normpath_def os_path_abspath_def posix_abspath_normal)

lemma emits_normal_posix:
  assumes "\<not> is_windows w" and "\<forall>p q. path_resolve w p = Inr q \<longrightarrow> posix_normpath q = q"
  shows "emits_normal w"
  using assms
  by (simp add: emits_normal_def abspath_normal) (simp add: normal_form_def os_path_normpath_def)

text \<open>A world of this kind.\<close>

lemma emits_normal_example:
  "emits_normal (bare_linux\<lparr>path_resolve := (\<lambda>p. Inr (posix_normpath p))\<rparr>)"
  by (rule emits_normal_posix)
     (auto simp: is_windows_def bare_linux_def posix_normpath_idem)

lemma emits_abspath: "emits_normal w \<Longrightarrow> normal_form w (os_path_abspath w p)"
  by (simp add: emits_normal_def)

lemma emits_resolve: "emits_normal w \<Longrightarrow> path_resolve w p = Inr q \<Longrightarrow> normal_form w q"
  by (auto simp: emits_normal_def)

lemma env_candidates_normal:
  "emits_normal w \<Longrightarrow> env_candidates w cs = Inr (Some p) \<Longrightarrow> normal_form w p"
  by (induction cs) (auto simp: emits_abspath split: sum.splits bool.splits)

lemma env_vars_loop_normal:
  "emits_normal w \<Longrightarrow> \<forall>p\<in>set paths. normal_form w p \<Longrightarrow>
   env_vars_loop w vars paths = Inr out \<Longrightarrow> \<forall>p\<in>set out. normal_form w p"
proof (induction vars arbitrary: paths)
  case Nil
  then show ?case by simp
next
  case (Cons var vars)
  show ?case
  proof (cases "environ w var")
    case None
    with Cons show ?thesis by simp
  next
    case (Some path)
    show ?thesis
    proof (cases "path = []")
      case True
      with Some Cons show ?thesis by simp
    next
      case False
      show ?thesis
      proof (cases "env_candidates w [path, os_path_join w path ''tessdata'']")
        case (Inl e)
        with Some False Cons.prems show ?thesis by simp
      next
        case (Inr r)
        show ?thesis
        proof (cases r)
          case None
          with Inr Some False Cons show ?thesis by simp
        next
          case (Some p)
          with Inr have "env_candidates w [path, os_path_join w path ''tessdata''] = Inr (Some p)"
            by (simp only:)
          with Cons.prems(1) have "normal_form w p" by (rule env_candidates_normal)
          with Cons.prems(2) have "\<forall>q\<in>set (paths @ [p]). normal_form w q" by simp
          moreover from Inr Some \<open>environ w var = Some path\<close> False Cons.prems(3)
          have "env_vars_loop w vars (paths @ [p]) = Inr out" by simp
          ultimately show ?thesis using Cons.IH Cons.prems(1) by blast
        qed
      qed
    qed
  qed
qed

lemma check_environment_vars_normal:
  assumes "emits_normal w" and "check_environment_vars w verbose = Inr out"
  shows "\<forall>p\<in>set out. normal_form w p"
  using env_vars_loop_normal [OF assms(1) _ assms(2) [unfolded check_environment_vars_def]]
  by simp

lemma info_words_normal:
  "emits_normal w \<Longrightarrow> \<forall>p\<in>set paths. normal_form w p \<Longrightarrow>
   \<forall>p\<in>set (snd (info_words w ws paths)). normal_form w p"
proof (induction ws arbitrary: paths)
  case Nil
  then show ?case by simp
next
  case (Cons word ws)
  show ?case
  proof (cases "str_in ''tessdata'' word \<and> os_path_isdir w word
                \<and> is_valid_tessdata_dir w word = Inr True")
    case False
    then show ?thesis
      using Cons.IH [OF Cons.prems] Cons.prems(2) by (auto split: sum.splits bool.splits)
  next
    case True
    from Cons.prems have "\<forall>p\<in>set (paths @ [os_path_abspath w word]). normal_form w p"
      by (simp add: emits_abspath)
    from Cons.IH [OF Cons.prems(1) this] True show ?thesis by simp
  qed
qed

lemma info_lines_normal:
  "emits_normal w \<Longrightarrow> \<forall>p\<in>set paths. normal_form w p \<Longrightarrow>
   \<forall>p\<in>set (snd (info_lines w ls paths)). normal_form w p"
proof (induction ls arbitrary: paths)
  case Nil
  then show ?case by simp
next
  case (Cons line ls)
  show ?case
  proof (cases "str_in ''tessdata'' (str_lower line)")
    case False
    with Cons show ?thesis by simp
  next
    case True
    obtain r paths' where iw: "info_words w (split_ws [] line) paths = (r, paths')"
      by (cases "info_words w (split_ws [] line) paths")
    from info_words_normal [OF Cons.prems, of "split_ws [] line"] iw
    have n: "\<forall>p\<in>set paths'. normal_form w p" by simp
    show ?thesis
    proof (cases r)
      case None
      with True iw Cons.IH [OF Cons.prems(1) n] show ?thesis by simp
    next
      case (Some e)
      with True iw n show ?thesis by simp
    qed
  qed
qed

lemma ask_tesseract_normal:
  "emits_normal w \<Longrightarrow> \<forall>p\<in>set paths. normal_form w p \<Longrightarrow>
   \<forall>p\<in>set (snd (ask_tesseract w binary paths)). normal_form w p"
proof -
  assume a: "emits_normal w" "\<forall>p\<in>set paths. normal_form w p"
  define inner where
    "inner = (case subprocess_run w binary of
              Inl e \<Rightarrow> (Some e, paths)
            | Inr stdout \<Rightarrow> info_lines w (split_on CHR 0x0A stdout) paths)"
  have "\<forall>p\<in>set (snd inner). normal_form w p"
    unfolding inner_def using a info_lines_normal [OF a]
    by (cases "subprocess_run w binary") simp_all
  moreover have "snd (ask_tesseract w binary paths) = snd inner"
    unfolding ask_tesseract_def inner_def [symmetric]
    by (cases inner) (simp split: option.splits)
  ultimately show ?thesis by simp
qed

lemma relative_loop_normal:
  "emits_normal w \<Longrightarrow> \<forall>p\<in>set paths. normal_form w p \<Longrightarrow>
   \<forall>p\<in>set (relative_loop w bin_dir rels paths). normal_form w p"
proof (induction rels arbitrary: paths)
  case Nil
  then show ?case by simp
next
  case (Cons rel_path rels)
  let ?c = "path_str w (path_div w bin_dir rel_path)"
  show ?case
  proof (cases "path_is_dir w ?c = Inr True \<and> is_valid_tessdata_dir w ?c = Inr True")
    case False
    then show ?thesis
      using Cons by (auto simp: Let_def split: sum.splits bool.splits)
  next
    case True
    show ?thesis
    proof (cases "path_resolve w ?c")
      case (Inl e)
      with True Cons.prems show ?thesis by (simp add: Let_def)
    next
      case (Inr abs_path)
      with Cons.prems(1) have "normal_form w abs_path" by (rule emits_resolve)
      with Cons.prems(2)
      have "\<forall>p\<in>set (if abs_path \<notin> set paths then paths @ [abs_path] else paths). normal_form w p"
        by simp
      from Cons.IH [OF Cons.prems(1) this] True Inr show ?thesis by (simp add: Let_def)
    qed
  qed
qed

lemma relative_to_binary_normal:
  "emits_normal w \<Longrightarrow> \<forall>p\<in>set paths. normal_form w p \<Longrightarrow>
   \<forall>p\<in>set (relative_to_binary w binary paths). normal_form w p"
  unfolding relative_to_binary_def
  by (cases "path_resolve w (path_str w (path_parent (Path_of w binary)))")
     (simp_all add: relative_loop_normal)

lemma binaries_loop_normal:
  "emits_normal w \<Longrightarrow> \<forall>p\<in>set paths. normal_form w p \<Longrightarrow>
   fst (binaries_loop w self clk bs paths n) = Inr out \<Longrightarrow> \<forall>p\<in>set out. normal_form w p"
proof (induction bs arbitrary: paths n)
  case Nil
  then show ?case by simp
next
  case (Cons binary bs)
  show ?case
  proof (cases "fst (is_timeout self clk n)")
    case True
    with Cons.prems show ?thesis by simp
  next
    case False
    obtain r paths' where at: "ask_tesseract w binary paths = (r, paths')"
      by (cases "ask_tesseract w binary paths")
    from ask_tesseract_normal [OF Cons.prems(1,2), of binary] at
    have "\<forall>p\<in>set paths'. normal_form w p" by simp
    then have n: "\<forall>p\<in>set (relative_to_binary w binary paths'). normal_form w p"
      by (rule relative_to_binary_normal [OF Cons.prems(1)])
    show ?thesis
    proof (cases r)
      case (Some e)
      with False at Cons.prems(3) show ?thesis by simp
    next
      case None
      with False at Cons.prems(3)
      have "fst (binaries_loop w self clk bs (relative_to_binary w binary paths')
                   (snd (is_timeout self clk n))) = Inr out"
        by simp
      with Cons.IH [OF Cons.prems(1) n] show ?thesis by blast
    qed
  qed
qed

lemma common_loop_normal:
  "emits_normal w \<Longrightarrow> \<forall>p\<in>set paths. normal_form w p \<Longrightarrow>
   \<forall>p\<in>set (fst (common_loop w self clk ts paths n)). normal_form w p"
proof (induction ts arbitrary: paths n)
  case Nil
  then show ?case by simp
next
  case (Cons t ts)
  let ?e = "expand w t"
  let ?paths' = "if os_path_isdir w ?e
                 then (case is_valid_tessdata_dir w ?e of
                         Inl e \<Rightarrow> paths
                       | Inr False \<Rightarrow> paths
                       | Inr True \<Rightarrow> paths @ [os_path_abspath w ?e])
                 else paths"
  have "\<forall>p\<in>set ?paths'. normal_form w p"
    using Cons.prems by (auto simp: emits_abspath split: sum.splits bool.splits)
  from Cons.IH [OF Cons.prems(1) this] Cons.prems(2) show ?case
    by (simp add: Let_def)
qed

lemma registry_loop_normal:
  "emits_normal w \<Longrightarrow> \<forall>p\<in>set paths. normal_form w p \<Longrightarrow>
   registry_loop w ls paths = Inr out \<Longrightarrow> \<forall>p\<in>set out. normal_form w p"
proof (induction ls arbitrary: paths)
  case Nil
  then show ?case by simp
next
  case (Cons l ls)
  obtain hkey subkey where l: "l = (hkey, subkey)" by (cases l)
  show ?case
  proof (cases "reg_install_path w hkey subkey")
    case (Inl e)
    with l Cons show ?thesis by (simp split: if_splits)
  next
    case (Inr install_path)
    let ?t = "os_path_join w install_path ''tessdata''"
    show ?thesis
    proof (cases "is_valid_tessdata_dir w ?t")
      case (Inl e)
      with l Inr Cons show ?thesis by (simp add: Let_def split: if_splits)
    next
      case valid: (Inr b)
      show ?thesis
      proof (cases b)
        case False
        with valid l Inr Cons show ?thesis by (simp add: Let_def)
      next
        case True
        from Cons.prems(1,2) have "\<forall>p\<in>set (paths @ [os_path_abspath w ?t]). normal_form w p"
          by (simp add: emits_abspath)
        moreover from True valid l Inr Cons.prems(3)
        have "registry_loop w ls (paths @ [os_path_abspath w ?t]) = Inr out"
          by (simp add: Let_def)
        ultimately show ?thesis using Cons.IH [OF Cons.prems(1)] by blast
      qed
    qed
  qed
qed

lemma crawl_found_normal:
  assumes "emits_normal w"
      and "f \<in> set (found (search_directory_tree_state w self clk root_path verbose))"
  shows "normal_form w f"
proof -
  from crawl_found_recorded [OF assms(2)] obtain q where "recorded w q f" by blast
  then have "path_resolve w (path_str w q) = Inr f" by (simp add: recorded_def)
  with assms(1) show ?thesis by (rule emits_resolve)
qed

lemma as_completed_subset: "set (fst (as_completed order fs)) \<subseteq> set fs"
  by (auto simp: as_completed_def Let_def)

lemma harvest_crawls_normal:
  "\<forall>r\<in>set rs. \<forall>l. r = Inr l \<longrightarrow> (\<forall>p\<in>set l. normal_form w p) \<Longrightarrow>
   \<forall>p\<in>set paths. normal_form w p \<Longrightarrow>
   fst (harvest_crawls self clk rs pending paths n) = Inr out \<Longrightarrow> \<forall>p\<in>set out. normal_form w p"
proof (induction rs arbitrary: paths n)
  case Nil
  then show ?case by (simp split: if_splits)
next
  case (Cons r rs)
  show ?case
  proof (cases "fst (is_timeout self clk n)")
    case True
    with Cons.prems show ?thesis by simp
  next
    case False
    show ?thesis
    proof (cases r)
      case (Inl e)
      with False Cons.prems(3)
      have "fst (harvest_crawls self clk rs pending paths (snd (is_timeout self clk n))) = Inr out"
        by simp
      with Cons.IH [of paths] Cons.prems(1,2) show ?thesis by simp
    next
      case (Inr l)
      with Cons.prems(1,2) have "\<forall>p\<in>set (paths @ l). normal_form w p" by auto
      moreover from Inr False Cons.prems(3)
      have "fst (harvest_crawls self clk rs pending (paths @ l) (snd (is_timeout self clk n)))
              = Inr out"
        by simp
      ultimately show ?thesis using Cons.IH [of "paths @ l"] Cons.prems(1) by simp
    qed
  qed
qed

lemma search_filesystem_smart_normal:
  assumes "emits_normal w"
      and "fst (search_filesystem_smart w self clk n verbose) = Inr out"
  shows "\<forall>p\<in>set out. normal_form w p"
proof (cases "fst (is_timeout self clk n)
              \<or> min (int (length (get_search_roots w))) (max_workers self) \<le> 0")
  case True
  with assms(2) show ?thesis
    by (auto simp: search_filesystem_smart_def Let_def split: if_splits)
next
  case False
  define fs where
    "fs = map (\<lambda>c. (Inr (found c) :: py_error + string list))
            (map (\<lambda>root. search_directory_tree_state w self (clock w (''crawl '' @ root))
                           root verbose) (get_search_roots w))"
  obtain yielded pending where ac: "as_completed (completed w ''crawl'') fs = (yielded, pending)"
    by (cases "as_completed (completed w ''crawl'') fs")
  have "set yielded \<subseteq> set fs"
    using as_completed_subset [of "completed w ''crawl''" fs] ac by simp
  then have y: "\<forall>r\<in>set yielded. \<forall>l. r = Inr l \<longrightarrow> (\<forall>p\<in>set l. normal_form w p)"
    using crawl_found_normal [OF assms(1)] unfolding fs_def by auto
  from False assms(2) ac
  have "fst (harvest_crawls self clk yielded pending []
               (snd (elapsed self clk (snd (is_timeout self clk n))))) = Inr out"
    unfolding search_filesystem_smart_def fs_def
    by (simp add: Let_def split: prod.splits)
  with harvest_crawls_normal [OF y, of "[]"] show ?thesis by simp
qed

lemma call_method_normal:
  assumes "emits_normal w" and "fst (call_method w self clk n verbose m) = Inr out"
  shows "\<forall>p\<in>set out. normal_form w p"
proof (cases m)
  case Check_environment_vars
  with assms show ?thesis by (simp add: check_environment_vars_normal)
next
  case Check_tesseract_binary_info
  with assms show ?thesis
    using binaries_loop_normal [OF assms(1), of "[]" self clk "find_tesseract_binaries w" n out]
    by (simp add: check_tesseract_binary_info_def split: prod.splits)
next
  case Check_common_locations
  with assms show ?thesis
    using common_loop_normal [OF assms(1), of "[]" self clk "get_common_tessdata_paths w" n]
    by (auto simp: check_common_locations_def Let_def split: prod.splits)
next
  case Check_registry_windows
  with assms show ?thesis
    using registry_loop_normal [OF assms(1), of "[]" registry_locations out]
    by (auto simp: check_registry_windows_def split: if_splits)
next
  case Dummy_method
  with assms show ?thesis by (auto simp: dummy_method_def)
next
  case Search_filesystem_smart
  with assms show ?thesis by (simp add: search_filesystem_smart_normal)
qed

lemma set_set_update: "set (set_update s paths) = set s \<union> set paths"
proof -
  have "set (foldl (\<lambda>acc p. if p \<in> set acc then acc else acc @ [p]) s paths) = set s \<union> set paths"
    by (induction paths arbitrary: s) auto
  then show ?thesis by (simp add: set_update_def)
qed

lemma add_found_normal:
  "\<forall>p\<in>set (found_paths (inst s)). normal_form w p \<Longrightarrow> \<forall>p\<in>set paths. normal_form w p \<Longrightarrow>
   \<forall>p\<in>set (found_paths (inst (add_found paths s))). normal_form w p"
  by (auto simp: add_found_def set_set_update)

lemma tier1_normal:
  "emits_normal w \<Longrightarrow> \<forall>p\<in>set (found_paths (inst s)). normal_form w p \<Longrightarrow>
   \<forall>p\<in>set (found_paths (inst (tier1 w verbose ms s))). normal_form w p"
proof (induction ms arbitrary: s)
  case Nil
  then show ?case by simp
next
  case (Cons m ms)
  show ?case
  proof (cases "fst (is_timeout (inst s) (clock w ''main'') (readings s))")
    case True
    with Cons.prems show ?thesis by simp
  next
    case False
    let ?n0 = "snd (is_timeout (inst s) (clock w ''main'') (readings s))"
    obtain r n vis where cm: "call_method w (inst s) (clock w ''main'') ?n0 verbose m = (r, n, vis)"
      by (cases "call_method w (inst s) (clock w ''main'') ?n0 verbose m")
    define s1 where "s1 = s\<lparr>readings := n, calls := calls s @ [m], crawled := crawled s @ vis\<rparr>"
    have s1: "\<forall>p\<in>set (found_paths (inst s1)). normal_form w p"
      using Cons.prems(2) by (simp add: s1_def)
    show ?thesis
    proof (cases r)
      case (Inl e)
      with False cm have "tier1 w verbose (m # ms) s = tier1 w verbose ms s1"
        by (simp add: s1_def Let_def)
      with Cons.IH [OF Cons.prems(1) s1] show ?thesis by simp
    next
      case (Inr paths)
      with cm have "fst (call_method w (inst s) (clock w ''main'') ?n0 verbose m) = Inr paths"
        by simp
      with Cons.prems(1) have "\<forall>p\<in>set paths. normal_form w p" by (rule call_method_normal)
      with s1 have "\<forall>p\<in>set (found_paths (inst (add_found paths s1))). normal_form w p"
        by (rule add_found_normal)
      moreover from Inr False cm
      have "tier1 w verbose (m # ms) s = tier1 w verbose ms (add_found paths s1)"
        by (simp add: s1_def Let_def)
      ultimately show ?thesis using Cons.IH [OF Cons.prems(1)] by simp
    qed
  qed
qed

lemma harvest_normal:
  "\<forall>r\<in>set rs. \<forall>l. r = Inr l \<longrightarrow> (\<forall>p\<in>set l. normal_form w p) \<Longrightarrow>
   \<forall>p\<in>set (found_paths (inst s)). normal_form w p \<Longrightarrow>
   \<forall>p\<in>set (found_paths (inst (snd (harvest w rs pending s)))). normal_form w p"
proof (induction rs arbitrary: s)
  case Nil
  then show ?case by simp
next
  case (Cons r rs)
  show ?case
  proof (cases "fst (is_timeout (inst s) (clock w ''main'') (readings s))")
    case True
    with Cons.prems show ?thesis by simp
  next
    case False
    define s1 where
      "s1 = s\<lparr>readings := snd (is_timeout (inst s) (clock w ''main'') (readings s))\<rparr>"
    have s1: "\<forall>p\<in>set (found_paths (inst s1)). normal_form w p"
      using Cons.prems(2) by (simp add: s1_def)
    from Cons.prems(1)
    have rs: "\<forall>r\<in>set rs. \<forall>l. r = Inr l \<longrightarrow> (\<forall>p\<in>set l. normal_form w p)" by simp
    show ?thesis
    proof (cases r)
      case (Inl e)
      with False have "harvest w (r # rs) pending s = harvest w rs pending s1"
        by (simp add: s1_def Let_def)
      with Cons.IH [OF rs s1] show ?thesis by simp
    next
      case (Inr paths)
      with Cons.prems(1) have "\<forall>p\<in>set paths. normal_form w p" by simp
      with s1 have "\<forall>p\<in>set (found_paths (inst (add_found paths s1))). normal_form w p"
        by (rule add_found_normal)
      moreover from Inr False
      have "harvest w (r # rs) pending s = harvest w rs pending (add_found paths s1)"
        by (simp add: s1_def Let_def)
      ultimately show ?thesis using Cons.IH [OF rs] by simp
    qed
  qed
qed

lemma tier2_normal:
  assumes "emits_normal w" and "\<forall>p\<in>set (found_paths (inst s)). normal_form w p"
  shows "\<forall>p\<in>set (found_paths (inst (snd (tier2 w verbose ms s)))). normal_form w p"
proof (cases "max_workers (inst s) \<le> 0")
  case True
  with assms(2) show ?thesis by (simp add: tier2_def)
next
  case False
  define tasks where
    "tasks = map (\<lambda>m. call_method w (inst s) (clock w (method_name m)) 0 verbose m) ms"
  define s1 where
    "s1 = s\<lparr>readings := snd (elapsed (inst s) (clock w ''main'') (readings s)),
            calls := calls s @ ms,
            crawled := crawled s @ concat (map (\<lambda>t. snd (snd t)) tasks)\<rparr>"
  obtain yielded pending
    where ac: "as_completed (completed w ''tier2'') (map fst tasks) = (yielded, pending)"
    by (cases "as_completed (completed w ''tier2'') (map fst tasks)")
  have sub: "set yielded \<subseteq> set (map fst tasks)"
    using as_completed_subset [of "completed w ''tier2''" "map fst tasks"] ac by simp
  have y: "\<forall>r\<in>set yielded. \<forall>l. r = Inr l \<longrightarrow> (\<forall>p\<in>set l. normal_form w p)"
  proof (intro ballI allI impI)
    fix r l p assume "r \<in> set yielded" and "r = Inr l" and "p \<in> set l"
    with sub obtain m
      where "fst (call_method w (inst s) (clock w (method_name m)) 0 verbose m) = Inr l"
      unfolding tasks_def by auto
    with assms(1) have "\<forall>p\<in>set l. normal_form w p" by (rule call_method_normal)
    with \<open>p \<in> set l\<close> show "normal_form w p" by simp
  qed
  have s1: "\<forall>p\<in>set (found_paths (inst s1)). normal_form w p"
    using assms(2) by (simp add: s1_def)
  from False ac have "tier2 w verbose ms s = harvest w yielded pending s1"
    unfolding tier2_def tasks_def [symmetric] s1_def by (simp add: Let_def)
  with harvest_normal [OF y s1] show ?thesis by simp
qed

lemma found_paths_normal:
  assumes "emits_normal w"
  shows "\<forall>p\<in>set (found_paths (inst (snd (find_all_tessdata_paths w self verbose)))).
           normal_form w p"
proof -
  define s1 where "s1 = tier1 w verbose (take 3 (search_methods w)) (search0 w self)"
  define s2 where
    "s2 = s1\<lparr>readings := snd (is_timeout (inst s1) (clock w ''main'') (readings s1))\<rparr>"
  define go where
    "go \<longleftrightarrow> \<not> fst (is_timeout (inst s1) (clock w ''main'') (readings s1))
            \<and> length (search_methods w) > 3"
  define r where "r = (if go then tier2 w verbose (drop 3 (search_methods w)) s2 else (None, s2))"
  have eq: "found_paths (inst (snd (find_all_tessdata_paths w self verbose)))
        = found_paths (inst (snd r))"
    unfolding r_def go_def s2_def s1_def
    by (simp add: find_all_tessdata_paths_def Let_def split: prod.splits option.splits)
  have "\<forall>p\<in>set (found_paths (inst (search0 w self))). normal_form w p"
    by (simp add: search0_def)
  with assms have "\<forall>p\<in>set (found_paths (inst s1)). normal_form w p"
    unfolding s1_def by (rule tier1_normal)
  then have s2: "\<forall>p\<in>set (found_paths (inst s2)). normal_form w p"
    by (simp add: s2_def)
  have "\<forall>p\<in>set (found_paths (inst (snd r))). normal_form w p"
    unfolding r_def using s2 tier2_normal [OF assms s2] by simp
  with eq show ?thesis by simp
qed

lemma find_all_output:
  assumes "fst (find_all_tessdata_paths w self verbose) = Inr out"
  shows "out = prioritize_paths w
           (list_of_set w (found_paths (inst (snd (find_all_tessdata_paths w self verbose)))))"
proof -
  define s1 where "s1 = tier1 w verbose (take 3 (search_methods w)) (search0 w self)"
  define s2 where
    "s2 = s1\<lparr>readings := snd (is_timeout (inst s1) (clock w ''main'') (readings s1))\<rparr>"
  define go where
    "go \<longleftrightarrow> \<not> fst (is_timeout (inst s1) (clock w ''main'') (readings s1))
            \<and> length (search_methods w) > 3"
  define r where "r = (if go then tier2 w verbose (drop 3 (search_methods w)) s2 else (None, s2))"
  have eq: "find_all_tessdata_paths w self verbose
        = (case r of
             (Some e, s3) \<Rightarrow> (Inl e, s3)
           | (None, s3) \<Rightarrow>
               (Inr (prioritize_paths w (list_of_set w (found_paths (inst s3)))),
                if verbose
                then s3\<lparr>readings := snd (elapsed (inst s3) (clock w ''main'') (readings s3))\<rparr>
                else s3))"
    unfolding r_def go_def s2_def s1_def
    by (simp add: find_all_tessdata_paths_def Let_def)
  obtain e s3 where r: "r = (e, s3)" by (cases r)
  show ?thesis
  proof (cases e)
    case None
    with r eq assms show ?thesis by auto
  next
    case (Some a)
    with r eq assms show ?thesis by simp
  qed
qed

section \<open>The priority law\<close>

lemma set_list_of_set: "set (list_of_set w xs) = set xs"
  by (simp add: list_of_set_def)

lemma before_of_normal:
  assumes "A \<in> set paths" and "B \<in> set paths"
      and "os_path_normpath w A = A" and "os_path_normpath w B = B"
      and "priority_key A < priority_key B"
  shows "before (prioritize_paths w paths) A B"
proof -
  from assms(1,3) have "A \<in> set (prioritize_paths w paths)"
    unfolding prioritize_paths_set by (metis imageI)
  moreover from assms(2,4) have "B \<in> set (prioritize_paths w paths)"
    unfolding prioritize_paths_set by (metis imageI)
  ultimately show ?thesis
    using sorted_before [OF prioritize_paths_sorted] assms(5) by blast
qed

lemma score_less:
  assumes "fst (priority_key A) = fst (priority_key B) - 1000"
  shows "priority_key A < priority_key B"
  using assms by (cases "priority_key A"; cases "priority_key B") simp

text \<open>
  Claim C5.  For two paths \<open>A\<close> and \<open>B\<close> of the input of \<open>_prioritize_paths\<close>, both in normal
  form, as the paths of \<open>found_paths\<close> are (\<open>found_paths_normal\<close>): if \<open>A\<close> in lower case
  holds \<open>tessdata_prefix\<close> or \<open>tesseract\<close> and \<open>B\<close> does not, and the two agree on the
  system-location test and on the digit test, then the score of \<open>A\<close> is 1000 lower than
  that of \<open>B\<close> and \<open>A\<close> stands before \<open>B\<close> in the output.
\<close>

theorem priority_law:
  assumes "A \<in> set paths" and "B \<in> set paths"
      and "os_path_normpath w A = A" and "os_path_normpath w B = B"
      and "has_engine_token A" and "\<not> has_engine_token B"
      and "in_system_location A = in_system_location B"
      and "has_digit A = has_digit B"
  shows "fst (priority_key A) = fst (priority_key B) - 1000
       \<and> before (prioritize_paths w paths) A B"
proof
  show score: "fst (priority_key A) = fst (priority_key B) - 1000"
    using assms(5-8) by (simp add: priority_key_score)
  then have "priority_key A < priority_key B" by (rule score_less)
  with assms(1-4) show "before (prioritize_paths w paths) A B" by (rule before_of_normal)
qed

theorem priority_law_witness:
  "''/usr/share/tesseract-ocr/tessdata''
      \<in> set [''/usr/share/tessdata'', ''/usr/share/tesseract-ocr/tessdata'']
   \<and> ''/usr/share/tessdata'' \<in> set [''/usr/share/tessdata'', ''/usr/share/tesseract-ocr/tessdata'']
   \<and> os_path_normpath bare_linux ''/usr/share/tesseract-ocr/tessdata''
        = ''/usr/share/tesseract-ocr/tessdata''
   \<and> os_path_normpath bare_linux ''/usr/share/tessdata'' = ''/usr/share/tessdata''
   \<and> has_engine_token ''/usr/share/tesseract-ocr/tessdata''
   \<and> \<not> has_engine_token ''/usr/share/tessdata''
   \<and> fst (priority_key ''/usr/share/tesseract-ocr/tessdata'')
        = fst (priority_key ''/usr/share/tessdata'') - 1000
   \<and> before (prioritize_paths bare_linux
                [''/usr/share/tessdata'', ''/usr/share/tesseract-ocr/tessdata''])
        ''/usr/share/tesseract-ocr/tessdata'' ''/usr/share/tessdata''
   \<and> prioritize_paths bare_linux [''/usr/share/tessdata'', ''/usr/share/tesseract-ocr/tessdata'']
        = [''/usr/share/tesseract-ocr/tessdata'', ''/usr/share/tessdata'']"
proof -
  have nA: "os_path_normpath bare_linux ''/usr/share/tesseract-ocr/tessdata''
              = ''/usr/share/tesseract-ocr/tessdata''"
    and nB: "os_path_normpath bare_linux ''/usr/share/tessdata'' = ''/usr/share/tessdata''"
    by (simp_all add: prioritize_eval bare_linux_def)
  have h: "has_engine_token ''/usr/share/tesseract-ocr/tessdata''"
    "\<not> has_engine_token ''/usr/share/tessdata''"
    "in_system_location ''/usr/share/tesseract-ocr/tessdata''
       = in_system_location ''/usr/share/tessdata''"
    "has_digit ''/usr/share/tesseract-ocr/tessdata'' = has_digit ''/usr/share/tessdata''"
    by (simp_all add: prioritize_eval)
  have out: "prioritize_paths bare_linux
               [''/usr/share/tessdata'', ''/usr/share/tesseract-ocr/tessdata'']
        = [''/usr/share/tesseract-ocr/tessdata'', ''/usr/share/tessdata'']"
    by (simp add: prioritize_eval bare_linux_def)
  have mem: "''/usr/share/tesseract-ocr/tessdata''
      \<in> set [''/usr/share/tessdata'', ''/usr/share/tesseract-ocr/tessdata'']"
    "''/usr/share/tessdata'' \<in> set [''/usr/share/tessdata'', ''/usr/share/tesseract-ocr/tessdata'']"
    by simp_all
  from priority_law [OF mem nA nB h]
  show ?thesis using mem nA nB h(1,2) out by (simp only: simp_thms)
qed

text \<open>The same for the list \<open>find_all_tessdata_paths\<close> returns and any two paths of its
  \<open>found_paths\<close>.\<close>

lemma engine_token_first_in_search:
  assumes "emits_normal w"
      and "fst (find_all_tessdata_paths w self verbose) = Inr out"
      and "A \<in> set (found_paths (inst (snd (find_all_tessdata_paths w self verbose))))"
      and "B \<in> set (found_paths (inst (snd (find_all_tessdata_paths w self verbose))))"
      and "has_engine_token A" and "\<not> has_engine_token B"
      and "in_system_location A = in_system_location B"
      and "has_digit A = has_digit B"
  shows "fst (priority_key A) = fst (priority_key B) - 1000 \<and> before out A B"
proof
  let ?raw = "found_paths (inst (snd (find_all_tessdata_paths w self verbose)))"
  from found_paths_normal [OF assms(1), of self verbose] assms(3,4)
  have n: "os_path_normpath w A = A" "os_path_normpath w B = B"
    by (simp_all add: normal_form_def)
  show score: "fst (priority_key A) = fst (priority_key B) - 1000"
    using assms(5-8) by (simp add: priority_key_score)
  then have less: "priority_key A < priority_key B" by (rule score_less)
  from assms(3,4) have "A \<in> set (list_of_set w ?raw)" "B \<in> set (list_of_set w ?raw)"
    by (simp_all add: set_list_of_set)
  then have "before (prioritize_paths w (list_of_set w ?raw)) A B"
    using n less by (rule before_of_normal)
  with find_all_output [OF assms(2)] show "before out A B" by simp
qed

section \<open>The whole search\<close>

subsection \<open>The search on the machine of scenario 1\<close>

lemma scenario_fields:
  "os_type (scenario sched clk) = ''linux''"
  "environ (scenario sched clk) v = (if v = ''TESSDATA_PREFIX'' then Some ''/data/ocr'' else None)"
  "getcwd (scenario sched clk) = ''/''"
  "path_is_dir (scenario sched clk) p = Inr (p \<in> set scenario_dirs)"
  "path_is_symlink (scenario sched clk) p = Inr False"
  "listdir (scenario sched clk) p = scenario_listdir p"
  "path_resolve (scenario sched clk) p = Inr p"
  "os_path_isfile (scenario sched clk) p = False"
  "os_path_exists (scenario sched clk) p = (p \<in> set scenario_dirs)"
  "os_access_x (scenario sched clk) p = False"
  "shutil_which (scenario sched clk) name = None"
  "expand (scenario sched clk) p = p"
  "subprocess_run (scenario sched clk) b = Inl FileNotFoundError"
  "winreg (scenario sched clk) = False"
  "str_hash (scenario sched clk) x = 0"
  "clock (scenario sched clk) = clk"
  "completed (scenario sched clk) = sched"
  by (simp_all add: scenario_def bare_linux_def)

lemma scenario_posix: "\<not> is_windows (scenario sched clk)"
  by (simp add: is_windows_def scenario_fields)

lemma scenario_valid:
  "is_valid_tessdata_dir (scenario sched clk) p
     = Inr (p = ''/data/ocr/tessdata'' \<or> p = ''/usr/share/tesseract-ocr/tessdata'')"
  by (auto simp: is_valid_tessdata_dir_def scenario_fields scenario_dirs_def
      scenario_listdir_def name_suffix_def split: bool.splits)

lemma scenario_isdir:
  "os_path_isdir (scenario sched clk) p = (p \<in> set scenario_dirs)"
  by (simp add: os_path_isdir_def scenario_fields)

lemma scenario_env:
  "check_environment_vars (scenario sched clk) verbose = Inr [''/data/ocr/tessdata'']"
  by (simp add: check_environment_vars_def scenario_valid scenario_fields scenario_posix
      os_path_join_def os_path_abspath_def posix_join_def posix_abspath_def posix_normpath_def
      initial_slashes_def suffix_to_prefix)

lemma scenario_binaries: "find_tesseract_binaries (scenario sched clk) = []"
  by (simp add: find_tesseract_binaries_def binary_names_def which_step_def path_dir_step_def
      executable_step_def get_common_binary_paths_def os_pathsep_def scenario_fields scenario_posix)

lemma scenario_binary_info:
  "check_tesseract_binary_info (scenario sched clk) self k n verbose = (Inr [], n)"
  by (simp add: check_tesseract_binary_info_def scenario_binaries)

lemma scenario_common:
  assumes "\<And>m. is_timeout self k m = (False, Suc m)"
  shows "check_common_locations (scenario sched clk) self k n verbose
           = (Inr [''/usr/share/tesseract-ocr/tessdata''], n + 8)"
  using assms
  by (simp add: check_common_locations_def get_common_tessdata_paths_def scenario_fields
      scenario_isdir scenario_valid scenario_dirs_def scenario_posix os_path_abspath_def
      posix_abspath_def posix_normpath_def initial_slashes_def Let_def)

lemma coarse_not_timeout:
  "0 \<le> t \<Longrightarrow>
   is_timeout \<lparr>timeout = t, max_workers = mw, start_time = Some 100, found_paths = fp\<rparr>
     (\<lambda>n. 100) m = (False, Suc m)"
  by (simp add: is_timeout_def elapsed_def)

lemma coarse_elapsed:
  "elapsed \<lparr>timeout = t, max_workers = mw, start_time = Some 100, found_paths = fp\<rparr>
     (\<lambda>n. 100) m = (0, Suc m)"
  by (simp add: elapsed_def)

lemma coarse_tier1:
  assumes "0 \<le> t"
  shows "tier1 (scenario sched (\<lambda>thr n. 100)) verbose
           (take 3 (search_methods (scenario sched (\<lambda>thr n. 100))))
           (search0 (scenario sched (\<lambda>thr n. 100)) (TessdataFinder t mw))
         = \<lparr>inst = \<lparr>timeout = t, max_workers = mw, start_time = Some 100,
                    found_paths = [''/data/ocr/tessdata'', ''/usr/share/tesseract-ocr/tessdata'']\<rparr>,
            readings = 12,
            calls = [Check_environment_vars, Check_tesseract_binary_info, Check_common_locations],
            crawled = []\<rparr>"
  using assms
  by (simp add: search_methods_def search0_def TessdataFinder_def scenario_fields
      coarse_not_timeout scenario_env scenario_binary_info scenario_common add_found_def
      set_update_def)

lemma coarse_crawls:
  assumes "0 \<le> t"
  shows "search_directory_tree_state (scenario sched (\<lambda>thr n. 100))
              \<lparr>timeout = t, max_workers = mw, start_time = Some 100, found_paths = fp\<rparr>
              (\<lambda>n. 100) ''/usr'' verbose
         = \<lparr>ticks = 1, found = [], visited = [PPath ''/'' [''usr'']]\<rparr>"
    and "search_directory_tree_state (scenario sched (\<lambda>thr n. 100))
              \<lparr>timeout = t, max_workers = mw, start_time = Some 100, found_paths = fp\<rparr>
              (\<lambda>n. 100) ''/usr/local'' verbose
         = \<lparr>ticks = 1, found = [], visited = [PPath ''/'' [''usr'', ''local'']]\<rparr>"
    and "search_directory_tree_state (scenario sched (\<lambda>thr n. 100))
              \<lparr>timeout = t, max_workers = mw, start_time = Some 100, found_paths = fp\<rparr>
              (\<lambda>n. 100) ''/opt'' verbose
         = \<lparr>ticks = 1, found = [], visited = [PPath ''/'' [''opt'']]\<rparr>"
  using assms
  by (simp_all add: search_directory_tree_state_def recursive_search.simps crawl0_def Path_of_def
      scenario_posix posix_Path_def initial_slashes_def max_depth_def scenario_fields
      coarse_not_timeout path_name_def path_str_def path_sep_def should_search_directory_def
      str_lower_def char_lower_def skip_dirs_def interesting_keywords_def scenario_listdir_def
      scenario_dirs_def)

lemma coarse_smart:
  assumes "0 \<le> t" and "0 < mw" and "sched ''crawl'' = [0, 1, 2]"
  shows "search_filesystem_smart (scenario sched (\<lambda>thr n. 100))
           \<lparr>timeout = t, max_workers = mw, start_time = Some 100, found_paths = fp\<rparr>
           (\<lambda>n. 100) 0 verbose
         = (Inr [], 5, [PPath ''/'' [''usr''], PPath ''/'' [''usr'', ''local''],
                        PPath ''/'' [''opt'']])"
  using assms
  by (simp add: search_filesystem_smart_def coarse_not_timeout coarse_elapsed
      get_search_roots_def scenario_fields coarse_crawls as_completed_def Let_def min_def)

lemma coarse_prioritize:
  "prioritize_paths (scenario sched clk)
     [''/data/ocr/tessdata'', ''/usr/share/tesseract-ocr/tessdata'']
   = [''/usr/share/tesseract-ocr/tessdata'', ''/data/ocr/tessdata'']"
  by (simp add: prioritize_paths_def os_path_normpath_def scenario_posix posix_normpath_def
      initial_slashes_def priority_key_def str_lower_def char_lower_def isdigit_def)

lemma coarse_tier2_all:
  assumes "0 \<le> t" and "0 < mw" and "sched ''crawl'' = [0, 1, 2]" and "sched ''tier2'' = [0, 1, 2]"
  shows "tier2 (scenario sched (\<lambda>thr n. 100)) verbose
           (drop 3 (search_methods (scenario sched (\<lambda>thr n. 100))))
           \<lparr>inst = \<lparr>timeout = t, max_workers = mw, start_time = Some 100, found_paths = fp\<rparr>,
            readings = r, calls = cs, crawled = []\<rparr>
         = (None,
            \<lparr>inst = \<lparr>timeout = t, max_workers = mw, start_time = Some 100, found_paths = fp\<rparr>,
             readings = r + 3, calls = cs @ [Dummy_method, Search_filesystem_smart],
             crawled = [PPath ''/'' [''usr''], PPath ''/'' [''usr'', ''local''],
                        PPath ''/'' [''opt'']]\<rparr>)"
  using assms
  by (simp add: tier2_def search_methods_def scenario_fields dummy_method_def coarse_smart
      coarse_elapsed coarse_not_timeout as_completed_def add_found_def set_update_def Let_def)

lemma coarse_tier2_slow:
  assumes "0 \<le> t" and "0 < mw" and "sched ''crawl'' = [0, 1, 2]" and "sched ''tier2'' = [0]"
  shows "tier2 (scenario sched (\<lambda>thr n. 100)) verbose
           (drop 3 (search_methods (scenario sched (\<lambda>thr n. 100))))
           \<lparr>inst = \<lparr>timeout = t, max_workers = mw, start_time = Some 100, found_paths = fp\<rparr>,
            readings = r, calls = cs, crawled = []\<rparr>
         = (Some FuturesTimeoutError,
            \<lparr>inst = \<lparr>timeout = t, max_workers = mw, start_time = Some 100, found_paths = fp\<rparr>,
             readings = r + 2, calls = cs @ [Dummy_method, Search_filesystem_smart],
             crawled = [PPath ''/'' [''usr''], PPath ''/'' [''usr'', ''local''],
                        PPath ''/'' [''opt'']]\<rparr>)"
  using assms
  by (simp add: tier2_def search_methods_def scenario_fields dummy_method_def coarse_smart
      coarse_elapsed coarse_not_timeout as_completed_def add_found_def set_update_def Let_def)

lemma length_search_methods: "length (search_methods w) = 5"
  by (simp add: search_methods_def)

lemma scenario_run:
  "find_all_tessdata_paths scenario_world (TessdataFinder 10 4) False
     = (Inr [''/usr/share/tesseract-ocr/tessdata'', ''/data/ocr/tessdata''],
        \<lparr>inst = \<lparr>timeout = 10, max_workers = 4, start_time = Some 100,
                 found_paths = [''/data/ocr/tessdata'', ''/usr/share/tesseract-ocr/tessdata'']\<rparr>,
         readings = 16,
         calls = [Check_environment_vars, Check_tesseract_binary_info, Check_common_locations,
                  Dummy_method, Search_filesystem_smart],
         crawled = [PPath ''/'' [''usr''], PPath ''/'' [''usr'', ''local''],
                    PPath ''/'' [''opt'']]\<rparr>)"
  unfolding scenario_world_def find_all_tessdata_paths_def
  by (simp add: coarse_tier1 coarse_tier2_all coarse_not_timeout coarse_prioritize
      scenario_fields length_search_methods list_of_set_def Let_def)

lemma slow_run:
  "find_all_tessdata_paths slow_crawl_world (TessdataFinder 10 4) False
     = (Inl FuturesTimeoutError,
        \<lparr>inst = \<lparr>timeout = 10, max_workers = 4, start_time = Some 100,
                 found_paths = [''/data/ocr/tessdata'', ''/usr/share/tesseract-ocr/tessdata'']\<rparr>,
         readings = 15,
         calls = [Check_environment_vars, Check_tesseract_binary_info, Check_common_locations,
                  Dummy_method, Search_filesystem_smart],
         crawled = [PPath ''/'' [''usr''], PPath ''/'' [''usr'', ''local''],
                    PPath ''/'' [''opt'']]\<rparr>)"
  unfolding slow_crawl_world_def find_all_tessdata_paths_def
  by (simp add: coarse_tier1 coarse_tier2_slow coarse_not_timeout scenario_fields
      length_search_methods Let_def)

lemma coarse_zero_run:
  "find_all_tessdata_paths scenario_world (TessdataFinder 0 4) False
     = (Inr [''/usr/share/tesseract-ocr/tessdata'', ''/data/ocr/tessdata''],
        \<lparr>inst = \<lparr>timeout = 0, max_workers = 4, start_time = Some 100,
                 found_paths = [''/data/ocr/tessdata'', ''/usr/share/tesseract-ocr/tessdata'']\<rparr>,
         readings = 16,
         calls = [Check_environment_vars, Check_tesseract_binary_info, Check_common_locations,
                  Dummy_method, Search_filesystem_smart],
         crawled = [PPath ''/'' [''usr''], PPath ''/'' [''usr'', ''local''],
                    PPath ''/'' [''opt'']]\<rparr>)"
  unfolding scenario_world_def find_all_tessdata_paths_def
  by (simp add: coarse_tier1 coarse_tier2_all coarse_not_timeout coarse_prioritize
      scenario_fields length_search_methods list_of_set_def Let_def)

lemma no_workers_run:
  "fst (find_all_tessdata_paths scenario_world (TessdataFinder 10 0) False) = Inl ValueError"
  unfolding scenario_world_def find_all_tessdata_paths_def
  by (simp add: coarse_tier1 coarse_not_timeout scenario_fields length_search_methods
      tier2_def Let_def)

subsection \<open>What leaves find\_all\_tessdata\_paths\<close>

lemma harvest_raises:
  "fst (harvest w rs pending s) = Some e \<Longrightarrow> e = FuturesTimeoutError \<and> pending"
  by (induction rs arbitrary: s) (auto simp: Let_def split: if_splits sum.splits)

lemma tier2_raises:
  assumes "fst (tier2 w verbose ms s) = Some e"
  shows "e = ValueError \<or> e = FuturesTimeoutError"
proof (cases "max_workers (inst s) \<le> 0")
  case True
  with assms show ?thesis by (simp add: tier2_def)
next
  case False
  with assms obtain rs pending s1 where "fst (harvest w rs pending s1) = Some e"
    by (auto simp: tier2_def Let_def split: prod.splits)
  then show ?thesis by (auto dest: harvest_raises)
qed

lemma find_all_raises_only:
  assumes "fst (find_all_tessdata_paths w self verbose) = Inl e"
  shows "e = ValueError \<or> e = FuturesTimeoutError"
proof -
  define s1 where "s1 = tier1 w verbose (take 3 (search_methods w)) (search0 w self)"
  define s2 where
    "s2 = s1\<lparr>readings := snd (is_timeout (inst s1) (clock w ''main'') (readings s1))\<rparr>"
  define go where
    "go \<longleftrightarrow> \<not> fst (is_timeout (inst s1) (clock w ''main'') (readings s1))
            \<and> length (search_methods w) > 3"
  define r where "r = (if go then tier2 w verbose (drop 3 (search_methods w)) s2 else (None, s2))"
  have eq: "fst (find_all_tessdata_paths w self verbose)
        = (case fst r of Some e \<Rightarrow> Inl e
           | None \<Rightarrow> Inr (prioritize_paths w (list_of_set w (found_paths (inst (snd r))))))"
    unfolding r_def go_def s2_def s1_def
    by (simp add: find_all_tessdata_paths_def Let_def split: prod.splits option.splits)
  have "fst r = Some e"
  proof (cases "fst r")
    case None
    with eq assms show ?thesis by simp
  next
    case (Some e')
    with eq assms show ?thesis by simp
  qed
  then have "go" and "fst (tier2 w verbose (drop 3 (search_methods w)) s2) = Some e"
    unfolding r_def by (simp_all split: if_splits)
  then show ?thesis using tier2_raises by blast
qed

text \<open>When both tasks of the second tier finish inside the window and the pool can be
  built, the call returns a list.\<close>

lemma harvest_returns: "\<not> pending \<Longrightarrow> fst (harvest w rs pending s) = None"
  by (induction rs arbitrary: s) (auto simp: Let_def split: sum.splits)

lemma as_completed_all:
  assumes "\<forall>i<length fs. i \<in> set order"
  shows "\<not> snd (as_completed order fs)"
proof -
  let ?fin = "remdups (filter (\<lambda>i. i < length fs) order)"
  have "set ?fin = {..<length fs}"
    using assms by auto
  then have "card (set ?fin) = length fs" by simp
  moreover have "card (set ?fin) = length ?fin"
    by (rule distinct_card) simp
  ultimately show ?thesis by (simp add: as_completed_def Let_def)
qed

lemma tier2_returns:
  assumes "0 < max_workers (inst s)" and "\<forall>i<length ms. i \<in> set (completed w ''tier2'')"
  shows "fst (tier2 w verbose ms s) = None"
proof -
  define tasks where
    "tasks = map (\<lambda>m. call_method w (inst s) (clock w (method_name m)) 0 verbose m) ms"
  obtain yielded pending
    where ac: "as_completed (completed w ''tier2'') (map fst tasks) = (yielded, pending)"
    by (cases "as_completed (completed w ''tier2'') (map fst tasks)")
  from assms(2) have "\<not> snd (as_completed (completed w ''tier2'') (map fst tasks))"
    by (intro as_completed_all) (simp add: tasks_def)
  with ac have "\<not> pending" by simp
  then have "fst (harvest w yielded pending s') = None" for s'
    by (rule harvest_returns)
  with assms(1) ac show ?thesis
    unfolding tier2_def tasks_def [symmetric] by (simp add: Let_def)
qed

lemma tier1_keeps_config:
  "max_workers (inst (tier1 w verbose ms s)) = max_workers (inst s)"
  by (induction ms arbitrary: s)
     (auto simp: Let_def add_found_def split: prod.splits sum.splits)

lemma find_all_returns_when_tasks_finish:
  assumes "0 < max_workers self" and "0 \<in> set (completed w ''tier2'')"
      and "1 \<in> set (completed w ''tier2'')"
  shows "\<exists>paths. fst (find_all_tessdata_paths w self verbose) = Inr paths"
proof -
  define s1 where "s1 = tier1 w verbose (take 3 (search_methods w)) (search0 w self)"
  define s2 where
    "s2 = s1\<lparr>readings := snd (is_timeout (inst s1) (clock w ''main'') (readings s1))\<rparr>"
  define go where
    "go \<longleftrightarrow> \<not> fst (is_timeout (inst s1) (clock w ''main'') (readings s1))
            \<and> length (search_methods w) > 3"
  define r where "r = (if go then tier2 w verbose (drop 3 (search_methods w)) s2 else (None, s2))"
  have eq: "fst (find_all_tessdata_paths w self verbose)
        = (case fst r of Some e \<Rightarrow> Inl e
           | None \<Rightarrow> Inr (prioritize_paths w (list_of_set w (found_paths (inst (snd r))))))"
    unfolding r_def go_def s2_def s1_def
    by (simp add: find_all_tessdata_paths_def Let_def split: prod.splits option.splits)
  have "max_workers (inst s2) = max_workers self"
    unfolding s2_def s1_def by (simp add: tier1_keeps_config search0_def)
  with assms(1) have mw: "0 < max_workers (inst s2)" by simp
  have "\<forall>i<length (drop 3 (search_methods w)). i \<in> set (completed w ''tier2'')"
  proof (intro allI impI)
    fix i assume "i < length (drop 3 (search_methods w))"
    then have "i = 0 \<or> i = 1" by (auto simp: length_search_methods)
    with assms(2,3) show "i \<in> set (completed w ''tier2'')" by auto
  qed
  with mw have "fst (tier2 w verbose (drop 3 (search_methods w)) s2) = None"
    by (rule tier2_returns)
  then have "fst r = None" unfolding r_def by simp
  with eq show ?thesis by simp
qed

subsection \<open>The public operations\<close>

text \<open>
  Claim C1 (the code departs from it).  On the machine of scenario 1, with a budget of
  ten seconds and four workers, when the crawl task has not finished at the moment the
  window of the outer \<open>as_completed\<close> closes, \<open>find_all_tessdata_paths\<close> does not return a
  list: the \<open>TimeoutError\<close> of the iterator, raised by the \<open>for\<close> statement outside the
  \<open>try\<close>, leaves it.
\<close>

theorem find_all_raises_on_slow_crawl:
  "fst (find_all_tessdata_paths slow_crawl_world (TessdataFinder 10 4) False)
     = Inl FuturesTimeoutError"
  by (simp add: slow_run)

text \<open>
  Claim C2.  \<open>find_primary_tessdata_path\<close> calls \<open>find_all_tessdata_paths\<close> once and leaves
  the same state; when that call returns a list it returns the first element of the
  list, or \<open>None\<close> for the empty list, so it returns \<open>None\<close> exactly when the list is
  empty; when that call raises, so does it.
\<close>

theorem find_primary_is_first:
  "snd (find_primary_tessdata_path w self verbose) = snd (find_all_tessdata_paths w self verbose)
   \<and> (\<forall>paths. fst (find_all_tessdata_paths w self verbose) = Inr paths \<longrightarrow>
          fst (find_primary_tessdata_path w self verbose)
            = Inr (case paths of [] \<Rightarrow> None | p # rest \<Rightarrow> Some p))
   \<and> (fst (find_primary_tessdata_path w self verbose) = Inr None
        \<longleftrightarrow> fst (find_all_tessdata_paths w self verbose) = Inr [])
   \<and> (\<forall>e. fst (find_all_tessdata_paths w self verbose) = Inl e \<longrightarrow>
          fst (find_primary_tessdata_path w self verbose) = Inl e)"
  by (auto simp: find_primary_tessdata_path_def split: prod.splits sum.splits list.splits)

theorem find_primary_is_first_witness:
  "fst (find_all_tessdata_paths scenario_world (TessdataFinder 10 4) False)
     = Inr [''/usr/share/tesseract-ocr/tessdata'', ''/data/ocr/tessdata'']
   \<and> fst (find_primary_tessdata_path scenario_world (TessdataFinder 10 4) False)
     = Inr (Some ''/usr/share/tesseract-ocr/tessdata'')"
proof -
  have a: "fst (find_all_tessdata_paths scenario_world (TessdataFinder 10 4) False)
     = Inr [''/usr/share/tesseract-ocr/tessdata'', ''/data/ocr/tessdata'']"
    by (simp add: scenario_run)
  from find_primary_is_first [of scenario_world "TessdataFinder 10 4" False]
  have "\<forall>paths. fst (find_all_tessdata_paths scenario_world (TessdataFinder 10 4) False) = Inr paths \<longrightarrow>
          fst (find_primary_tessdata_path scenario_world (TessdataFinder 10 4) False)
            = Inr (case paths of [] \<Rightarrow> None | p # rest \<Rightarrow> Some p)"
    by blast
  with a have "fst (find_primary_tessdata_path scenario_world (TessdataFinder 10 4) False)
     = Inr (case [''/usr/share/tesseract-ocr/tessdata'', ''/data/ocr/tessdata''] of
              [] \<Rightarrow> None | p # rest \<Rightarrow> Some p)"
    by blast
  with a show ?thesis by simp
qed

text \<open>
  Claim C6 (the code departs from it).  With \<open>TESSDATA_PREFIX=/data/ocr\<close> and
  \<open>eng.traineddata\<close> in \<open>/data/ocr/tessdata\<close>, the environment probe finds
  \<open>/data/ocr/tessdata\<close>, but its score is 0: the bonus of 1000 goes to paths whose text
  holds \<open>tessdata_prefix\<close> or \<open>tesseract\<close>, not to paths that come from the variable.  With
  a second installation in \<open>/usr/share/tesseract-ocr/tessdata\<close> (score -1100) the path
  of the variable is ranked second.
\<close>

theorem env_path_not_first:
  "check_environment_vars scenario_world False = Inr [''/data/ocr/tessdata'']
   \<and> priority_key ''/data/ocr/tessdata'' = (0, ''/data/ocr/tessdata'')
   \<and> priority_key ''/usr/share/tesseract-ocr/tessdata''
       = (- 1100, ''/usr/share/tesseract-ocr/tessdata'')
   \<and> fst (find_all_tessdata_paths scenario_world (TessdataFinder 10 4) False)
       = Inr [''/usr/share/tesseract-ocr/tessdata'', ''/data/ocr/tessdata'']"
proof (intro conjI)
  show "check_environment_vars scenario_world False = Inr [''/data/ocr/tessdata'']"
    unfolding scenario_world_def by (rule scenario_env)
  show "priority_key ''/data/ocr/tessdata'' = (0, ''/data/ocr/tessdata'')"
    by (simp add: priority_key_def str_lower_def char_lower_def isdigit_def)
  show "priority_key ''/usr/share/tesseract-ocr/tessdata''
       = (- 1100, ''/usr/share/tesseract-ocr/tessdata'')"
    by (simp add: priority_key_def str_lower_def char_lower_def isdigit_def)
  show "fst (find_all_tessdata_paths scenario_world (TessdataFinder 10 4) False)
       = Inr [''/usr/share/tesseract-ocr/tessdata'', ''/data/ocr/tessdata'']"
    by (simp add: scenario_run)
qed

lemma zero_timeout_expired:
  assumes "timeout self = 0" and "start_time self = Some s" and "s \<noteq> 0" and "s < clk n"
  shows "is_timeout self clk n = (True, Suc n)"
  using assms by (simp add: is_timeout_def elapsed_def)

text \<open>
  Claim C9, amended.  With \<open>timeout = 0\<close> the budget has expired as soon as the clock
  reads later than the start time (which is not \<open>0.0\<close>); the test is \<open>elapsed > timeout\<close>,
  so a reading equal to the start time does not expire it.  When the reading at its
  entry is later than the start time, \<open>_search_filesystem_smart\<close> returns the empty list
  after that one reading and no directory is visited.  When the two readings that
  \<open>find_all_tessdata_paths\<close> makes after the start (before the first probe, and before
  the concurrent part) are later than the start time, no search method is called at
  all, nothing is crawled and the result is the empty list.
\<close>

theorem zero_timeout_after_clock_advance:
  assumes "timeout self = 0"
  shows "(\<forall>s. start_time self = Some s \<and> s \<noteq> 0 \<and> s < clk n \<longrightarrow>
            search_filesystem_smart w self clk n verbose = (Inr [], Suc n, []))
       \<and> (clock w ''main'' 0 \<noteq> 0 \<and> clock w ''main'' 0 < clock w ''main'' 1
            \<and> clock w ''main'' 0 < clock w ''main'' 2 \<longrightarrow>
            fst (find_all_tessdata_paths w self verbose) = Inr []
            \<and> calls (snd (find_all_tessdata_paths w self verbose)) = []
            \<and> crawled (snd (find_all_tessdata_paths w self verbose)) = [])"
proof (intro conjI allI impI)
  fix s
  assume "start_time self = Some s \<and> s \<noteq> 0 \<and> s < clk n"
  with assms have "is_timeout self clk n = (True, Suc n)"
    by (simp add: zero_timeout_expired)
  then show "search_filesystem_smart w self clk n verbose = (Inr [], Suc n, [])"
    by (simp add: search_filesystem_smart_def)
next
  assume c: "clock w ''main'' 0 \<noteq> 0 \<and> clock w ''main'' 0 < clock w ''main'' 1
            \<and> clock w ''main'' 0 < clock w ''main'' 2"
  let ?s0 = "search0 w self"
  have t1: "is_timeout (inst ?s0) (clock w ''main'') 1 = (True, 2)"
    using assms c zero_timeout_expired [of "inst ?s0" "clock w ''main'' 0" "clock w ''main''" 1]
    by (simp add: search0_def)
  have t2: "is_timeout (inst ?s0) (clock w ''main'') 2 = (True, 3)"
    using assms c zero_timeout_expired [of "inst ?s0" "clock w ''main'' 0" "clock w ''main''" 2]
    by (simp add: search0_def)
  have r: "readings ?s0 = 1" by (simp add: search0_def)
  have tier: "tier1 w verbose (take 3 (search_methods w)) ?s0 = ?s0\<lparr>readings := 2\<rparr>"
    using t1 r by (simp add: search_methods_def)
  have run: "find_all_tessdata_paths w self verbose
        = (Inr [], if verbose
                   then ?s0\<lparr>readings := snd (elapsed (inst ?s0) (clock w ''main'') 3)\<rparr>
                   else ?s0\<lparr>readings := 3\<rparr>)"
    unfolding find_all_tessdata_paths_def tier
    using t2 by (simp add: Let_def search0_def list_of_set_def prioritize_paths_def)
  show "fst (find_all_tessdata_paths w self verbose) = Inr []"
    and "calls (snd (find_all_tessdata_paths w self verbose)) = []"
    and "crawled (snd (find_all_tessdata_paths w self verbose)) = []"
    by (simp_all add: run search0_def)
qed

theorem zero_timeout_after_clock_advance_witness:
  "timeout (TessdataFinder 0 4) = 0
   \<and> clock ticking_world ''main'' 0 \<noteq> 0
   \<and> clock ticking_world ''main'' 0 < clock ticking_world ''main'' 1
   \<and> clock ticking_world ''main'' 0 < clock ticking_world ''main'' 2
   \<and> fst (find_all_tessdata_paths ticking_world (TessdataFinder 0 4) False) = Inr []
   \<and> calls (snd (find_all_tessdata_paths ticking_world (TessdataFinder 0 4) False)) = []
   \<and> crawled (snd (find_all_tessdata_paths ticking_world (TessdataFinder 0 4) False)) = []
   \<and> search_filesystem_smart ticking_world
        \<lparr>timeout = 0, max_workers = 4, start_time = Some 100, found_paths = []\<rparr>
        (clock ticking_world ''_search_filesystem_smart'') 1 False = (Inr [], 2, [])"
proof -
  have t: "timeout (TessdataFinder 0 4) = 0"
    by (simp add: TessdataFinder_def)
  have c: "clock ticking_world ''main'' 0 \<noteq> 0
           \<and> clock ticking_world ''main'' 0 < clock ticking_world ''main'' 1
           \<and> clock ticking_world ''main'' 0 < clock ticking_world ''main'' 2"
    by (simp add: ticking_world_def scenario_fields)
  from zero_timeout_after_clock_advance [OF t, where w = ticking_world and verbose = False] c
  have a: "fst (find_all_tessdata_paths ticking_world (TessdataFinder 0 4) False) = Inr []
     \<and> calls (snd (find_all_tessdata_paths ticking_world (TessdataFinder 0 4) False)) = []
     \<and> crawled (snd (find_all_tessdata_paths ticking_world (TessdataFinder 0 4) False)) = []"
    by blast
  have "timeout \<lparr>timeout = 0, max_workers = 4, start_time = Some 100, found_paths = []\<rparr> = 0"
    by simp
  from zero_timeout_after_clock_advance [OF this,
      where clk = "clock ticking_world ''_search_filesystem_smart''" and n = 1
        and w = ticking_world and verbose = False]
  have "search_filesystem_smart ticking_world
        \<lparr>timeout = 0, max_workers = 4, start_time = Some 100, found_paths = []\<rparr>
        (clock ticking_world ''_search_filesystem_smart'') 1 False = (Inr [], 2, [])"
    by (simp add: ticking_world_def scenario_fields)
  with t c a show ?thesis by blast
qed

theorem zero_timeout_counterexample:
  "timeout (TessdataFinder 0 4) = 0
   \<and> clock scenario_world ''main'' 1 = clock scenario_world ''main'' 0
   \<and> calls (snd (find_all_tessdata_paths scenario_world (TessdataFinder 0 4) False))
       = [Check_environment_vars, Check_tesseract_binary_info, Check_common_locations,
          Dummy_method, Search_filesystem_smart]
   \<and> crawled (snd (find_all_tessdata_paths scenario_world (TessdataFinder 0 4) False))
       = [PPath ''/'' [''usr''], PPath ''/'' [''usr'', ''local''], PPath ''/'' [''opt'']]
   \<and> fst (find_all_tessdata_paths scenario_world (TessdataFinder 0 4) False)
       = Inr [''/usr/share/tesseract-ocr/tessdata'', ''/data/ocr/tessdata'']
   \<and> search_filesystem_smart scenario_world
        \<lparr>timeout = 0, max_workers = 4, start_time = Some 100, found_paths = []\<rparr>
        (\<lambda>n. 100) 0 False
       = (Inr [], 5, [PPath ''/'' [''usr''], PPath ''/'' [''usr'', ''local''],
                      PPath ''/'' [''opt'']])"
proof -
  have "search_filesystem_smart scenario_world
        \<lparr>timeout = 0, max_workers = 4, start_time = Some 100, found_paths = []\<rparr>
        (\<lambda>n. 100) 0 False
       = (Inr [], 5, [PPath ''/'' [''usr''], PPath ''/'' [''usr'', ''local''],
                      PPath ''/'' [''opt'']])"
    unfolding scenario_world_def by (rule coarse_smart) simp_all
  moreover have "clock scenario_world ''main'' 1 = clock scenario_world ''main'' 0"
    by (simp add: scenario_world_def scenario_fields)
  moreover have "timeout (TessdataFinder 0 4) = 0"
    by (simp add: TessdataFinder_def)
  ultimately show ?thesis
    by (simp add: coarse_zero_run)
qed

end
